theory Spec2Isabelle
  imports Complex_Main "HOL-Library.Sublist" "HOL-Library.Multiset"
begin

section \<open>The query orchestration service (src/services/queryService.ts)\<close>

text \<open>
  The module is an asynchronous pipeline over external collaborators (embedding
  generator, chat completions, vector search, conversation memory, summariser) and two
  module-level caches. It is embedded as state-passing functions on a \<open>world\<close>:
  every \<^verbatim>\<open>await\<close> is a step that returns either a rejection (\<open>Inl\<close>) or a value
  (\<open>Inr\<close>) together with the next world. A collaborator is a black box whose answer may
  depend on everything that has happened so far, so its behaviour is a function of the
  trace of calls; calling it appends the call to the trace. \<^verbatim>\<open>console.log\<close> is not
  modelled. Numbers are mathematical (\<open>int\<close>, \<open>real\<close>): NaN, infinities and fractional
  counts are outside the model.
\<close>

subsection \<open>Values\<close>

text \<open>A thrown value: a rejection of a collaborator, or an error raised by the module
  or the runtime itself (\<^verbatim>\<open>new Error(...)\<close>, a TypeError on reading a property of
  \<^verbatim>\<open>undefined\<close> or \<^verbatim>\<open>null\<close>).\<close>

datatype error = Rejected string | JsError string

text \<open>JavaScript data as far as \<^verbatim>\<open>JSON.stringify\<close> and property reads see it:
  \<^verbatim>\<open>undefined\<close>, \<^verbatim>\<open>null\<close>, booleans, integers, strings (of one-byte characters),
  arrays, and plain objects as the list of their own properties in enumeration order.
  Numbers that are not integers, NaN and the infinities, functions, symbols, and objects
  with a serialisation of their own (Date, Map, Set, \<^verbatim>\<open>toJSON\<close>) have no counterpart
  here; an integer stands for the JavaScript number of the same value, which is exact
  and written in plain decimal digits in the safe range \<open>\<bar>i\<bar> \<le> 2^53 - 1\<close>.\<close>

datatype jsval =
    JUndefined
  | JNull
  | JBool bool
  | JNum int
  | JStr string
  | JArr "jsval list"
  | JObj "(string \<times> jsval) list"

text \<open>\<^verbatim>\<open>interface QueryEmbeddingsOptions\<close>: every property is optional. An options
  object is the list of the properties the caller set, in the order they were set (the
  order in which \<^verbatim>\<open>JSON.stringify\<close> writes them); a property occurs at most once. A
  property that is absent reads as \<^verbatim>\<open>undefined\<close>, which is \<open>None\<close>. \<open>topK\<close> is a
  count: an integer.\<close>

datatype option_property =
    TopK int
  | EnableAPIQuery bool
  | Context jsval
  | Language string
  | UserId string
  | MessageId string

type_synonym options = "option_property list"

fun topK :: "options \<Rightarrow> int option" where
  "topK [] = None"
| "topK (TopK k # ps) = Some k"
| "topK (p # ps) = topK ps"

fun enableAPIQuery :: "options \<Rightarrow> bool option" where
  "enableAPIQuery [] = None"
| "enableAPIQuery (EnableAPIQuery b # ps) = Some b"
| "enableAPIQuery (p # ps) = enableAPIQuery ps"

fun userId :: "options \<Rightarrow> string option" where
  "userId [] = None"
| "userId (UserId u # ps) = Some u"
| "userId (p # ps) = userId ps"

fun messageId :: "options \<Rightarrow> string option" where
  "messageId [] = None"
| "messageId (MessageId m # ps) = Some m"
| "messageId (p # ps) = messageId ps"

text \<open>A document as the aggregation pipeline projects it (\<open>text\<close>, \<open>metadata\<close>,
  \<open>score\<close>); of \<open>metadata\<close> only the properties the module reads are kept.\<close>

record doc =
  doc_text :: string
  doc_metadata_text :: "string option"
  doc_metadata_language :: "string option"
  doc_score :: real

text \<open>\<^verbatim>\<open>interface VectorSearchResult\<close>, with \<open>metadata\<close> flattened.\<close>

record vsr =
  metadata_text :: string
  metadata_language :: "string option"
  score :: real

text \<open>The argument of \<^verbatim>\<open>weightContextRelevance\<close> and the elements of
  \<open>matches\<close> in the response.\<close>

record raw_match =
  rm_text :: string
  rm_language :: "string option"
  rm_score :: real

record wcontext =
  wc_text :: string
  wc_language :: "string option"
  wc_source :: "string option"
  wc_score :: real

text \<open>\<^verbatim>\<open>interface QueryEmbeddingsResponse\<close>. The answer is the content of a chat
  completion message, which the API types as nullable.\<close>

record response =
  matches :: "wcontext list"
  apiResults :: "jsval list"
  answer :: "string option"

text \<open>A request to \<^verbatim>\<open>openai.chat.completions.create\<close> as the two generation sites
  build it.\<close>

record chat_request =
  model :: string
  system_content :: "string option"
  user_content :: string
  temperature :: "real option"
  max_tokens :: nat

text \<open>What the module asks of the outside, in the order it asks.\<close>

datatype event =
    Sleep nat
  | Invoke string
  | EmbedQuery string
  | ClassifyIntent string
  | ChatCompletion chat_request
  | PineconeQuery int "real list option"
  | MongoAggregate string string "real list option" int
  | ExternalAPI string
  | GetMemory "string option"
  | LoadMemoryVariables "string option"
  | SummarizeChatHistory "(string \<times> string option) list"
  | SaveContext "string option" string "string option"

subsection \<open>The world: clock, trace, caches, conversation memory\<close>

record world =
  now :: nat
  trace :: "event list"
  cache :: "string \<rightharpoonup> (response \<times> nat)"
  messageCache :: "string \<rightharpoonup> (bool \<times> nat)"
  memories :: "string option \<rightharpoonup> (string \<times> string option) list"

text \<open>The two \<^verbatim>\<open>NodeCache\<close> instances. NodeCache is a library, not part of the
  repository; what the module relies on is modelled: a cache is a map from keys to a
  value and its expiry, in milliseconds. \<open>get\<close> answers only while the entry has not
  expired. \<open>set\<close> stores the value with expiry \<open>now + ttl\<close>; a cache that already holds
  \<open>maxKeys\<close> keys refuses the write by throwing \<^verbatim>\<open>ECACHEFULL\<close> (the spec speaks of
  eviction at capacity; the library throws). Entries count until they are removed; the
  library's periodic removal of expired entries is a timer outside the model.\<close>

definition cache_get :: "('k \<rightharpoonup> ('v \<times> nat)) \<Rightarrow> 'k \<Rightarrow> nat \<Rightarrow> 'v option" where
  "cache_get m k t = (case m k of
      None \<Rightarrow> None
    | Some (v, expiry) \<Rightarrow> if t \<le> expiry then Some v else None)"

definition cache_set ::
  "nat \<Rightarrow> ('k \<rightharpoonup> ('v \<times> nat)) \<Rightarrow> 'k \<Rightarrow> 'v \<Rightarrow> nat \<Rightarrow> nat \<Rightarrow> error + ('k \<rightharpoonup> ('v \<times> nat))" where
  "cache_set maxKeys m k v ttl t =
     (if maxKeys \<le> card (dom m) then Inl (JsError ''ECACHEFULL'')
      else Inr (m(k \<mapsto> (v, t + ttl))))"

text \<open>\<^verbatim>\<open>new NodeCache({ stdTTL: 3600, maxKeys: 1000 })\<close> and
  \<^verbatim>\<open>new NodeCache({ stdTTL: 300, maxKeys: 10000 })\<close>; times in milliseconds.\<close>

definition cacheTTL :: nat where
  "cacheTTL = 3600 * 1000"

definition cacheMaxKeys :: nat where
  "cacheMaxKeys = 1000"

definition messageCacheTTL :: nat where
  "messageCacheTTL = 300 * 1000"

definition messageCacheMaxKeys :: nat where
  "messageCacheMaxKeys = 10000"

text \<open>\<^verbatim>\<open>await new Promise((res) => setTimeout(res, ms))\<close>: the timer is requested and
  the clock moves on by \<open>ms\<close>.\<close>

definition sleep :: "nat \<Rightarrow> world \<Rightarrow> world" where
  "sleep ms s = s\<lparr>now := now s + ms, trace := trace s @ [Sleep ms]\<rparr>"

text \<open>Time passing between two calls of the module.\<close>

definition advance :: "nat \<Rightarrow> world \<Rightarrow> world" where
  "advance d s = s\<lparr>now := now s + d\<rparr>"

text \<open>Calling a collaborator: its answer is read off the history, and the call is
  recorded.\<close>

definition invoke :: "event \<Rightarrow> (event list \<Rightarrow> error + 'a) \<Rightarrow> world \<Rightarrow> (error + 'a) \<times> world" where
  "invoke ev answer_of s = (answer_of (trace s), s\<lparr>trace := trace s @ [ev]\<rparr>)"

subsection \<open>retry\<close>

text \<open>
  \<^verbatim>\<open>
  async function retry<T>(fn: () => Promise<T>, maxRetries = 3): Promise<T> {
    for (let i = 0; i < maxRetries; i++) {
      try { return await fn(); }
      catch (error) {
        if (i === maxRetries - 1) throw error;
        await new Promise((res) => setTimeout(res, 1000 * Math.pow(2, i)));
      }
    }
  }
  \<close>
  Falling off the end of the loop resolves to \<^verbatim>\<open>undefined\<close>, which is \<open>Inr None\<close>.
\<close>

function retry_loop ::
  "(world \<Rightarrow> (error + 'a) \<times> world) \<Rightarrow> int \<Rightarrow> int \<Rightarrow> world \<Rightarrow> (error + 'a option) \<times> world" where
  "retry_loop fn maxRetries i s =
     (if i < maxRetries then
        (case fn s of
           (Inr v, s') \<Rightarrow> (Inr (Some v), s')
         | (Inl e, s') \<Rightarrow>
             if i = maxRetries - 1 then (Inl e, s')
             else retry_loop fn maxRetries (i + 1) (sleep (1000 * 2 ^ nat i) s'))
      else (Inr None, s))"
  by pat_completeness auto
termination
  by (relation "measure (\<lambda>(fn, maxRetries, i, s). nat (maxRetries - i))") auto

definition retry :: "(world \<Rightarrow> (error + 'a) \<times> world) \<Rightarrow> int \<Rightarrow> world \<Rightarrow> (error + 'a option) \<times> world" where
  "retry fn maxRetries = retry_loop fn maxRetries 0"

text \<open>The default argument \<^verbatim>\<open>maxRetries = 3\<close>.\<close>

definition retry_default :: "(world \<Rightarrow> (error + 'a) \<times> world) \<Rightarrow> world \<Rightarrow> (error + 'a option) \<times> world" where
  "retry_default fn = retry fn 3"

text \<open>The calls and waits of \<open>n\<close> failed attempts started at loop index \<open>i\<close>: a call,
  and before every further call a wait of \<open>1000 * 2 ^ i\<close> milliseconds.\<close>

fun schedule :: "event \<Rightarrow> nat \<Rightarrow> nat \<Rightarrow> event list" where
  "schedule ev i 0 = []"
| "schedule ev i (Suc 0) = [ev]"
| "schedule ev i (Suc (Suc n)) = ev # Sleep (1000 * 2 ^ i) # schedule ev (Suc i) (Suc n)"

text \<open>The contract of the retry wrapper, in its own words: the world in which attempt
  number \<open>k\<close> (counted from 0) starts when every earlier attempt failed. The first
  attempt starts at once; after a failed attempt a timer of \<open>1000 * 2 ^ (i + k)\<close>
  milliseconds is requested and the clock has moved on by as much before the next attempt
  (\<open>i\<close> is the loop index of the first attempt).\<close>

fun attempt_world :: "(world \<Rightarrow> (error + 'a) \<times> world) \<Rightarrow> nat \<Rightarrow> nat \<Rightarrow> world \<Rightarrow> world" where
  "attempt_world fn i 0 s = s"
| "attempt_world fn i (Suc k) s =
     (let s' = snd (fn (attempt_world fn i k s))
      in s'\<lparr>now := now s' + 1000 * 2 ^ (i + k), trace := trace s' @ [Sleep (1000 * 2 ^ (i + k))]\<rparr>)"

text \<open>A world in which nothing has happened yet.\<close>

definition world0 :: world where
  "world0 = \<lparr>now = 0, trace = [], cache = Map.empty, messageCache = Map.empty,
     memories = Map.empty\<rparr>"

text \<open>Sequencing of two awaited steps: a rejection of the first is the rejection of the
  whole (there is no \<^verbatim>\<open>try\<close> in the module outside \<open>retry\<close>).\<close>

definition await ::
  "(world \<Rightarrow> (error + 'a) \<times> world) \<Rightarrow> ('a \<Rightarrow> world \<Rightarrow> (error + 'b) \<times> world) \<Rightarrow>
   world \<Rightarrow> (error + 'b) \<times> world" where
  "await m k s = (case m s of (Inl e, s') \<Rightarrow> (Inl e, s') | (Inr v, s') \<Rightarrow> k v s')"

definition return :: "'a \<Rightarrow> world \<Rightarrow> (error + 'a) \<times> world" where
  "return v s = (Inr v, s)"

definition throw :: "error \<Rightarrow> world \<Rightarrow> (error + 'a) \<times> world" where
  "throw e s = (Inl e, s)"

subsection \<open>JSON.stringify and truthiness\<close>

definition join :: "string \<Rightarrow> string list \<Rightarrow> string" where
  "join sep xs = (case xs of [] \<Rightarrow> [] | y # ys \<Rightarrow> y @ concat (map (\<lambda>z. sep @ z) ys))"

definition digit_char :: "nat \<Rightarrow> char" where
  "digit_char d = char_of (48 + d)"

function decimal :: "nat \<Rightarrow> string" where
  "decimal n = (if n < 10 then [digit_char n] else decimal (n div 10) @ [digit_char (n mod 10)])"
  by pat_completeness auto
termination
  by (relation "measure id") auto

declare decimal.simps [simp del]

definition number_string :: "int \<Rightarrow> string" where
  "number_string i = (if i < 0 then CHR ''-'' # decimal (nat (- i)) else decimal (nat i))"

definition hex_char :: "nat \<Rightarrow> char" where
  "hex_char d = (if d < 10 then char_of (48 + d) else char_of (87 + d))"

text \<open>\<^verbatim>\<open>QuoteJSONString\<close>: the quote and the backslash are escaped with a backslash,
  control characters by their short form or as \<^verbatim>\<open>\u00XX\<close>. Characters are single
  bytes here.\<close>

definition escape_char :: "char \<Rightarrow> string" where
  "escape_char c =
     (if c = CHR 0x22 then [CHR 0x5C, CHR 0x22]
      else if c = CHR 0x5C then [CHR 0x5C, CHR 0x5C]
      else if c = CHR 0x08 then [CHR 0x5C, CHR ''b'']
      else if c = CHR 0x09 then [CHR 0x5C, CHR ''t'']
      else if c = CHR 0x0A then [CHR 0x5C, CHR ''n'']
      else if c = CHR 0x0C then [CHR 0x5C, CHR ''f'']
      else if c = CHR 0x0D then [CHR 0x5C, CHR ''r'']
      else if of_char c < (32::nat) then
        [CHR 0x5C, CHR ''u'', CHR ''0'', CHR ''0'',
         hex_char (of_char c div 16), hex_char (of_char c mod 16)]
      else [c])"

definition quote :: "string \<Rightarrow> string" where
  "quote s = CHR 0x22 # concat (map escape_char s) @ [CHR 0x22]"

text \<open>\<^verbatim>\<open>SerializeJSONProperty\<close>: in an array \<^verbatim>\<open>undefined\<close> is written
  \<^verbatim>\<open>null\<close>; in an object a property whose value is \<^verbatim>\<open>undefined\<close> is left out.\<close>

fun JSON_value :: "jsval \<Rightarrow> string"
  and JSON_elements :: "jsval list \<Rightarrow> string list"
  and JSON_members :: "(string \<times> jsval) list \<Rightarrow> string list" where
  "JSON_value JUndefined = ''null''"
| "JSON_value JNull = ''null''"
| "JSON_value (JBool b) = (if b then ''true'' else ''false'')"
| "JSON_value (JNum i) = number_string i"
| "JSON_value (JStr s) = quote s"
| "JSON_value (JArr xs) = ''['' @ join '','' (JSON_elements xs) @ '']''"
| "JSON_value (JObj kvs) = ''{'' @ join '','' (JSON_members kvs) @ ''}''"
| "JSON_elements [] = []"
| "JSON_elements (x # xs) = JSON_value x # JSON_elements xs"
| "JSON_members [] = []"
| "JSON_members ((k, v) # kvs) =
     (if v = JUndefined then JSON_members kvs
      else (quote k @ '':'' @ JSON_value v) # JSON_members kvs)"

text \<open>\<^verbatim>\<open>JSON.stringify(v)\<close>; \<open>None\<close> is \<^verbatim>\<open>undefined\<close>.\<close>

definition JSON_stringify :: "jsval \<Rightarrow> string option" where
  "JSON_stringify v = (if v = JUndefined then None else Some (JSON_value v))"

text \<open>A value inside a template literal.\<close>

definition template :: "string option \<Rightarrow> string" where
  "template x = (case x of None \<Rightarrow> ''undefined'' | Some t \<Rightarrow> t)"

fun truthy :: "jsval \<Rightarrow> bool" where
  "truthy JUndefined = False"
| "truthy JNull = False"
| "truthy (JBool b) = b"
| "truthy (JNum i) = (i \<noteq> 0)"
| "truthy (JStr s) = (s \<noteq> [])"
| "truthy (JArr xs) = True"
| "truthy (JObj kvs) = True"

text \<open>Reading a property: a TypeError on \<^verbatim>\<open>null\<close> and \<^verbatim>\<open>undefined\<close>,
  \<^verbatim>\<open>undefined\<close> where there is no such property.\<close>

fun get_property :: "jsval \<Rightarrow> string \<Rightarrow> error + jsval" where
  "get_property JUndefined k = Inl (JsError ''TypeError'')"
| "get_property JNull k = Inl (JsError ''TypeError'')"
| "get_property (JObj kvs) k = Inr (case map_of kvs k of None \<Rightarrow> JUndefined | Some v \<Rightarrow> v)"
| "get_property v k = Inr JUndefined"

text \<open>The options object as \<^verbatim>\<open>JSON.stringify\<close> sees it: its properties in the
  order the caller set them.\<close>

fun option_member :: "option_property \<Rightarrow> string \<times> jsval" where
  "option_member (TopK k) = (''topK'', JNum k)"
| "option_member (EnableAPIQuery b) = (''enableAPIQuery'', JBool b)"
| "option_member (Context v) = (''context'', v)"
| "option_member (Language l) = (''language'', JStr l)"
| "option_member (UserId u) = (''userId'', JStr u)"
| "option_member (MessageId m) = (''messageId'', JStr m)"

definition options_object :: "options \<Rightarrow> jsval" where
  "options_object opts = JObj (map option_member opts)"

text \<open>\<^verbatim>\<open>const cacheKey = `${query}:${JSON.stringify(options)}`;\<close>\<close>

definition cacheKey :: "string \<Rightarrow> options \<Rightarrow> string" where
  "cacheKey query opts = query @ '':'' @ template (JSON_stringify (options_object opts))"

subsection \<open>The collaborators\<close>

text \<open>
  Everything the module imports or reads from the environment. The asynchronous
  collaborators answer as a function of the history. \<open>jsonParse\<close> is
  \<^verbatim>\<open>JSON.parse\<close>. \<open>weightContextRelevance\<close> and \<open>formatContexts\<close>
  (\<^verbatim>\<open>../utils/conversation.js\<close>) are synchronous functions whose code is not part of
  the sources at hand; they are parameters.
\<close>

record env =
  SYSTEM_PROMPT :: "string option"
  embeddings_embedQuery :: "string \<Rightarrow> event list \<Rightarrow> error + real list"
  openai_classify :: "string \<Rightarrow> event list \<Rightarrow> error + string option list"
  openai_chat :: "chat_request \<Rightarrow> event list \<Rightarrow> error + string option list"
  jsonParse :: "string \<Rightarrow> error + jsval"
  index_query :: "int \<Rightarrow> real list option \<Rightarrow> event list \<Rightarrow> error + vsr list"
  collection_aggregate ::
    "string \<Rightarrow> string \<Rightarrow> real list option \<Rightarrow> int \<Rightarrow> event list \<Rightarrow> error + doc list"
  weightContextRelevance :: "string \<Rightarrow> raw_match list \<Rightarrow> wcontext list"
  formatContexts :: "wcontext list \<Rightarrow> string"
  summarizeChatHistory :: "(string \<times> string option) list \<Rightarrow> event list \<Rightarrow> error + string"
  memory_fault :: "event list \<Rightarrow> error option"

text \<open>\<^verbatim>\<open>completion.choices[0].message.content\<close>: a completion is the list of the
  contents of its choices; with no first choice the read is a TypeError, as it is on
  \<^verbatim>\<open>undefined\<close>, the value of a \<open>retry\<close> that fell off its loop.\<close>

definition first_content :: "string option list option \<Rightarrow> error + string option" where
  "first_content completion =
     (case completion of
        None \<Rightarrow> Inl (JsError ''TypeError'')
      | Some [] \<Rightarrow> Inl (JsError ''TypeError'')
      | Some (c # cs) \<Rightarrow> Inr c)"

text \<open>Modelled from the spec: the conversation memory (\<^verbatim>\<open>./ConversationManager.js\<close>).
  \<open>getMemory\<close> creates the user's memory if absent, \<open>loadMemoryVariables\<close> reads the
  history, \<open>saveContext\<close> appends one turn; each is a call to the outside that may be
  rejected, and a rejected call changes nothing.\<close>

definition getMemory :: "env \<Rightarrow> string option \<Rightarrow> world \<Rightarrow> (error + string option) \<times> world" where
  "getMemory env uid s =
     (case memory_fault env (trace s) of
        Some e \<Rightarrow> (Inl e, s\<lparr>trace := trace s @ [GetMemory uid]\<rparr>)
      | None \<Rightarrow>
          (Inr uid,
           s\<lparr>trace := trace s @ [GetMemory uid],
             memories := (case memories s uid of
                 None \<Rightarrow> (memories s)(uid \<mapsto> [])
               | Some h \<Rightarrow> memories s)\<rparr>))"

definition loadMemoryVariables ::
  "env \<Rightarrow> string option \<Rightarrow> world \<Rightarrow> (error + (string \<times> string option) list) \<times> world" where
  "loadMemoryVariables env uid s =
     (case memory_fault env (trace s) of
        Some e \<Rightarrow> (Inl e, s\<lparr>trace := trace s @ [LoadMemoryVariables uid]\<rparr>)
      | None \<Rightarrow>
          (Inr (case memories s uid of None \<Rightarrow> [] | Some h \<Rightarrow> h),
           s\<lparr>trace := trace s @ [LoadMemoryVariables uid]\<rparr>))"

definition saveContext ::
  "env \<Rightarrow> string option \<Rightarrow> string \<Rightarrow> string option \<Rightarrow> world \<Rightarrow> (error + unit) \<times> world" where
  "saveContext env uid input output s =
     (case memory_fault env (trace s) of
        Some e \<Rightarrow> (Inl e, s\<lparr>trace := trace s @ [SaveContext uid input output]\<rparr>)
      | None \<Rightarrow>
          (Inr (),
           s\<lparr>trace := trace s @ [SaveContext uid input output],
             memories := (memories s)(uid \<mapsto>
               (case memories s uid of None \<Rightarrow> [] | Some h \<Rightarrow> h) @ [(input, output)])\<rparr>))"

subsection \<open>The vector store adapter\<close>

text \<open>\<^verbatim>\<open>x || 5\<close> on a number.\<close>

definition or_5 :: "int \<Rightarrow> int" where
  "or_5 k = (if k = 0 then 5 else k)"

text \<open>\<^verbatim>\<open>options.topK || 5\<close>.\<close>

definition topK_or_5 :: "int option \<Rightarrow> int" where
  "topK_or_5 k = (case k of None \<Rightarrow> 5 | Some n \<Rightarrow> or_5 n)"

text \<open>\<^verbatim>\<open>queryMongoCollection\<close>: the aggregation (\<^verbatim>\<open>knnBeta\<close> with
  \<^verbatim>\<open>k: topK || 5\<close>) and the reshaping of its documents; in
  \<^verbatim>\<open>{ text: doc.text, ...doc.metadata }\<close> a \<open>text\<close> of the metadata wins.\<close>

definition reshape :: "doc \<Rightarrow> vsr" where
  "reshape d =
     \<lparr>metadata_text = (case doc_metadata_text d of None \<Rightarrow> doc_text d | Some t \<Rightarrow> t),
      metadata_language = doc_metadata_language d,
      score = doc_score d\<rparr>"

definition queryMongoCollection ::
  "env \<Rightarrow> string \<Rightarrow> string \<Rightarrow> real list option \<Rightarrow> int \<Rightarrow> world \<Rightarrow> (error + vsr list) \<times> world" where
  "queryMongoCollection env collection indexName queryVector k =
     await (invoke (MongoAggregate collection indexName queryVector (or_5 k))
              (collection_aggregate env collection indexName queryVector (or_5 k)))
       (\<lambda>results. return (map reshape results))"

text \<open>\<^verbatim>\<open>xs.filter((_, index) => index <= topK)\<close>.\<close>

definition filter_index_le :: "int \<Rightarrow> 'a list \<Rightarrow> 'a list" where
  "filter_index_le k xs = map snd (filter (\<lambda>(i, x). int i \<le> k) (enumerate 0 xs))"

text \<open>\<^verbatim>\<open>xs.sort((a, b) => b.score - a.score)\<close>: a stable sort by descending score.\<close>

definition sort_by_score_desc :: "vsr list \<Rightarrow> vsr list" where
  "sort_by_score_desc xs = sort_key (\<lambda>r. - score r) xs"

text \<open>\<^verbatim>\<open>xs.slice(0, end)\<close>: a negative end counts from the end of the list.\<close>

definition slice0 :: "int \<Rightarrow> 'a list \<Rightarrow> 'a list" where
  "slice0 e xs = (if e < 0 then take (nat (int (length xs) + e)) xs else take (nat e) xs)"

text \<open>The \<open>mongodb\<close> branch after the search: filter by index, sort, slice.\<close>

definition topResults :: "int \<Rightarrow> vsr list \<Rightarrow> vsr list" where
  "topResults k docsResults = slice0 k (sort_by_score_desc (filter_index_le k docsResults))"

text \<open>\<^verbatim>\<open>queryVectorStore\<close>. The result is the \<open>matches\<close> of the object returned;
  \<open>None\<close> is \<^verbatim>\<open>undefined\<close>.\<close>

definition queryVectorStore ::
  "env \<Rightarrow> string \<Rightarrow> real list option \<Rightarrow> int option \<Rightarrow> world \<Rightarrow> (error + vsr list option) \<times> world" where
  "queryVectorStore env storeName queryVector options_topK =
     (if storeName = ''pinecone'' then
        retry_default (invoke (PineconeQuery (topK_or_5 options_topK) queryVector)
          (index_query env (topK_or_5 options_topK) queryVector))
      else if storeName = ''mongodb'' then
        await (queryMongoCollection env ''docs'' ''vectorDocsIndex'' queryVector
                 (topK_or_5 options_topK))
          (\<lambda>docsResults. return (Some (topResults (topK_or_5 options_topK) docsResults)))
      else throw (JsError (''Vector store '' @ [CHR 0x22] @ storeName @ [CHR 0x22] @
                    '' is not implemented.'')))"

subsection \<open>External enrichment and intent\<close>

text \<open>\<^verbatim>\<open>queryExternalAPI\<close>: a placeholder that answers with a fixed list.\<close>

definition queryExternalAPI :: "string \<Rightarrow> world \<Rightarrow> (error + jsval list) \<times> world" where
  "queryExternalAPI apiName s =
     (Inr [JObj [(''data'', JStr ''Mock API response'')]],
      s\<lparr>trace := trace s @ [ExternalAPI apiName]\<rparr>)"

text \<open>\<^verbatim>\<open>analyzeUserIntent\<close>: one completion (fixed instructions, temperature 0, JSON
  output) and \<^verbatim>\<open>JSON.parse\<close> of its first content; \<^verbatim>\<open>JSON.parse(null)\<close> parses
  the text \<^verbatim>\<open>null\<close>.\<close>

definition analyzeUserIntent :: "env \<Rightarrow> string \<Rightarrow> world \<Rightarrow> (error + jsval) \<times> world" where
  "analyzeUserIntent env query =
     await (invoke (ClassifyIntent query) (openai_classify env query))
       (\<lambda>completion. case first_content (Some completion) of
            Inl e \<Rightarrow> throw e
          | Inr content \<Rightarrow>
              (case jsonParse env (case content of None \<Rightarrow> ''null'' | Some c \<Rightarrow> c) of
                 Inl e \<Rightarrow> throw e
               | Inr intent \<Rightarrow> return intent))"

text \<open>\<^verbatim>\<open>intent.isGreeting && !intent.hasQuestion && !intent.needsSupport\<close>.\<close>

definition is_pure_greeting :: "jsval \<Rightarrow> error + bool" where
  "is_pure_greeting intent =
     (case get_property intent ''isGreeting'' of
        Inl e \<Rightarrow> Inl e
      | Inr g \<Rightarrow>
          if \<not> truthy g then Inr False
          else (case get_property intent ''hasQuestion'' of
                  Inl e \<Rightarrow> Inl e
                | Inr q \<Rightarrow>
                    if truthy q then Inr False
                    else (case get_property intent ''needsSupport'' of
                            Inl e \<Rightarrow> Inl e
                          | Inr n \<Rightarrow> Inr (\<not> truthy n))))"

subsection \<open>queryEmbeddings\<close>

text \<open>\<^verbatim>\<open>messageId && messageCache.get(messageId)\<close>.\<close>

definition duplicate_message :: "options \<Rightarrow> world \<Rightarrow> bool" where
  "duplicate_message opts s =
     (case messageId opts of
        None \<Rightarrow> False
      | Some mid \<Rightarrow> mid \<noteq> [] \<and> cache_get (messageCache s) mid (now s) = Some True)"

text \<open>The user message of the greeting completion.\<close>

definition greeting_content :: "string \<Rightarrow> string" where
  "greeting_content query =
     ''Query: '' @ [CHR 0x22] @ query @ [CHR 0x22, CHR 0x0A] @ ''Type: Greeting'' @
     [CHR 0x0A, CHR 0x0A] @
     ''Respond in a friendly and natural way, without assuming any supporting context''"

text \<open>Lines 240 to 261: the greeting branch returns its response at once.\<close>

definition greetingBranch :: "env \<Rightarrow> string \<Rightarrow> world \<Rightarrow> (error + response option) \<times> world" where
  "greetingBranch env query =
     await (retry_default
              (invoke (ChatCompletion
                 \<lparr>model = ''gpt-3.5-turbo'', system_content = SYSTEM_PROMPT env,
                  user_content = greeting_content query, temperature = Some (7 / 10),
                  max_tokens = 500\<rparr>)
               (openai_chat env
                 \<lparr>model = ''gpt-3.5-turbo'', system_content = SYSTEM_PROMPT env,
                  user_content = greeting_content query, temperature = Some (7 / 10),
                  max_tokens = 500\<rparr>)))
       (\<lambda>completion. case first_content completion of
            Inl e \<Rightarrow> throw e
          | Inr content \<Rightarrow> return (Some \<lparr>matches = [], apiResults = [], answer = content\<rparr>))"

text \<open>The user message of the main completion.\<close>

definition prompt_content :: "env \<Rightarrow> string \<Rightarrow> jsval \<Rightarrow> string \<Rightarrow> wcontext list \<Rightarrow> string" where
  "prompt_content env query intent historySummary contexts =
     join [CHR 0x0A]
       [''Query: '' @ [CHR 0x22] @ query @ [CHR 0x22],
        ''Intent: '' @ template (JSON_stringify intent),
        [],
        ''Conversation Summary:'',
        historySummary,
        [],
        ''Relevant contexts:'',
        formatContexts env contexts]"

text \<open>\<^verbatim>\<open>messageCache.set(messageId, true)\<close> and \<^verbatim>\<open>cache.set(cacheKey, result)\<close>.\<close>

definition messageCache_set :: "string \<Rightarrow> world \<Rightarrow> (error + unit) \<times> world" where
  "messageCache_set mid s =
     (case cache_set messageCacheMaxKeys (messageCache s) mid True messageCacheTTL (now s) of
        Inl e \<Rightarrow> (Inl e, s)
      | Inr m \<Rightarrow> (Inr (), s\<lparr>messageCache := m\<rparr>))"

definition result_cache_set :: "string \<Rightarrow> response \<Rightarrow> world \<Rightarrow> (error + unit) \<times> world" where
  "result_cache_set key result s =
     (case cache_set cacheMaxKeys (cache s) key result cacheTTL (now s) of
        Inl e \<Rightarrow> (Inl e, s)
      | Inr m \<Rightarrow> (Inr (), s\<lparr>cache := m\<rparr>))"

text \<open>Lines 318 to 332: save the turn, mark the message, store the result, return it.\<close>

definition finish ::
  "env \<Rightarrow> string \<Rightarrow> options \<Rightarrow> string option \<Rightarrow> wcontext list \<Rightarrow> jsval list \<Rightarrow>
   string option \<Rightarrow> world \<Rightarrow> (error + response option) \<times> world" where
  "finish env query opts memory contexts api content =
     await (saveContext env memory query content)
       (\<lambda>_.
     await (case messageId opts of
              None \<Rightarrow> return ()
            | Some mid \<Rightarrow> if mid \<noteq> [] then messageCache_set mid else return ())
       (\<lambda>_.
     await (result_cache_set (cacheKey query opts)
              \<lparr>matches = contexts, apiResults = api, answer = content\<rparr>)
       (\<lambda>_. return (Some \<lparr>matches = contexts, apiResults = api, answer = content\<rparr>))))"

text \<open>Lines 263 to 332, with the enrichment call as a parameter \<open>api\<close>.\<close>

definition retrievalBranch ::
  "(string \<Rightarrow> world \<Rightarrow> (error + jsval list) \<times> world) \<Rightarrow> env \<Rightarrow> string \<Rightarrow> options \<Rightarrow>
   real list option \<Rightarrow> jsval \<Rightarrow> world \<Rightarrow> (error + response option) \<times> world" where
  "retrievalBranch api env query opts queryVector intent =
     await (queryVectorStore env ''mongodb'' queryVector (topK opts))
       (\<lambda>vectorResults. case vectorResults of
          None \<Rightarrow> throw (JsError ''TypeError'')
        | Some ms \<Rightarrow>
     await (return (weightContextRelevance env query
              (map (\<lambda>m. \<lparr>rm_text = metadata_text m, rm_language = metadata_language m,
                          rm_score = score m\<rparr>) ms)))
       (\<lambda>contexts.
     await (if enableAPIQuery opts = Some True then api ''mockAPI'' else return [])
       (\<lambda>apiResults.
     await (getMemory env (userId opts))
       (\<lambda>memory.
     await (loadMemoryVariables env memory)
       (\<lambda>chatHistory.
     await (invoke (SummarizeChatHistory chatHistory) (summarizeChatHistory env chatHistory))
       (\<lambda>historySummary.
     await (retry_default
              (invoke (ChatCompletion
                 \<lparr>model = ''gpt-4'', system_content = SYSTEM_PROMPT env,
                  user_content = prompt_content env query intent historySummary contexts,
                  temperature = None, max_tokens = 500\<rparr>)
               (openai_chat env
                 \<lparr>model = ''gpt-4'', system_content = SYSTEM_PROMPT env,
                  user_content = prompt_content env query intent historySummary contexts,
                  temperature = None, max_tokens = 500\<rparr>)))
       (\<lambda>completion. case first_content completion of
          Inl e \<Rightarrow> throw e
        | Inr content \<Rightarrow> finish env query opts memory contexts apiResults content)))))))"

text \<open>Lines 236 to 240: embed, classify, branch.\<close>

definition process ::
  "(string \<Rightarrow> world \<Rightarrow> (error + jsval list) \<times> world) \<Rightarrow> env \<Rightarrow> string \<Rightarrow> options \<Rightarrow>
   world \<Rightarrow> (error + response option) \<times> world" where
  "process api env query opts =
     await (retry_default (invoke (EmbedQuery query) (embeddings_embedQuery env query)))
       (\<lambda>queryVector.
     await (analyzeUserIntent env query)
       (\<lambda>intent. case is_pure_greeting intent of
          Inl e \<Rightarrow> throw e
        | Inr True \<Rightarrow> greetingBranch env query
        | Inr False \<Rightarrow> retrievalBranch api env query opts queryVector intent))"

text \<open>The whole function for a given enrichment call: \<open>Inr None\<close> is the \<^verbatim>\<open>null\<close>
  of a duplicate message.\<close>

definition queryEmbeddings_with ::
  "(string \<Rightarrow> world \<Rightarrow> (error + jsval list) \<times> world) \<Rightarrow> env \<Rightarrow> string \<Rightarrow> options \<Rightarrow>
   world \<Rightarrow> (error + response option) \<times> world" where
  "queryEmbeddings_with api env query opts s =
     (if duplicate_message opts s then (Inr None, s)
      else (case cache_get (cache s) (cacheKey query opts) (now s) of
              Some cachedResult \<Rightarrow> (Inr (Some cachedResult), s)
            | None \<Rightarrow> process api env query opts s))"

text \<open>\<^verbatim>\<open>queryEmbeddings\<close> as exported: the enrichment is \<^verbatim>\<open>queryExternalAPI\<close>.\<close>

definition queryEmbeddings ::
  "env \<Rightarrow> string \<Rightarrow> options \<Rightarrow> world \<Rightarrow> (error + response option) \<times> world" where
  "queryEmbeddings = queryEmbeddings_with queryExternalAPI"

text \<open>What a call adds to the trace.\<close>

definition new_events :: "world \<Rightarrow> world \<Rightarrow> event list" where
  "new_events s s' = drop (length (trace s)) (trace s')"

subsection \<open>A concrete environment\<close>

text \<open>Collaborators that always answer, for running the functions on concrete inputs:
  the search finds three documents, the classifier sees a support request, the weigher
  keeps the matches as they are.\<close>

definition docs0 :: "doc list" where
  "docs0 =
     [\<lparr>doc_text = ''reset password'', doc_metadata_text = None,
       doc_metadata_language = Some ''en'', doc_score = 1\<rparr>,
      \<lparr>doc_text = ''change email'', doc_metadata_text = None,
       doc_metadata_language = Some ''en'', doc_score = 3\<rparr>,
      \<lparr>doc_text = ''pagamento'', doc_metadata_text = None,
       doc_metadata_language = Some ''pt'', doc_score = 2\<rparr>]"

definition support_intent :: jsval where
  "support_intent = JObj [(''isGreeting'', JBool False), (''hasQuestion'', JBool False),
     (''needsSupport'', JBool True), (''topic'', JStr ''payment'')]"

definition greeting_intent :: jsval where
  "greeting_intent = JObj [(''isGreeting'', JBool True), (''hasQuestion'', JBool False),
     (''needsSupport'', JBool False), (''topic'', JStr ''none'')]"

definition env0 :: env where
  "env0 =
     \<lparr>SYSTEM_PROMPT = Some ''You are a support assistant.'',
      embeddings_embedQuery = (\<lambda>query h. Inr [1, 0]),
      openai_classify = (\<lambda>query h. Inr [Some ''intent'']),
      openai_chat = (\<lambda>request h. Inr [Some ''Here is how.'']),
      jsonParse = (\<lambda>text. Inr support_intent),
      index_query = (\<lambda>k v h. Inr []),
      collection_aggregate = (\<lambda>collection indexName v k h. Inr docs0),
      weightContextRelevance = (\<lambda>query ms.
        map (\<lambda>m. \<lparr>wc_text = rm_text m, wc_language = rm_language m, wc_source = None,
                    wc_score = rm_score m\<rparr>) ms),
      formatContexts = (\<lambda>cs. concat (map wc_text cs)),
      summarizeChatHistory = (\<lambda>history h. Inr ''no history''),
      memory_fault = (\<lambda>h. None)\<rparr>"

text \<open>The options with no property set: the default \<^verbatim>\<open>options = {}\<close>.\<close>

definition no_options :: options where
  "no_options = []"

subsection \<open>Observations on a run\<close>

text \<open>The turns recorded for a user (none when the user has no memory yet).\<close>

definition histories :: "world \<Rightarrow> string option \<Rightarrow> (string \<times> string option) list" where
  "histories s u = (case memories s u of None \<Rightarrow> [] | Some h \<Rightarrow> h)"

text \<open>From \<open>s\<close> to \<open>s'\<close> only calls satisfying \<open>P\<close> were made and time passed: caches
  and memories are as they were.\<close>

definition io_only :: "(event \<Rightarrow> bool) \<Rightarrow> world \<Rightarrow> world \<Rightarrow> bool" where
  "io_only P s s' =
     (cache s' = cache s \<and> messageCache s' = messageCache s \<and> memories s' = memories s \<and>
      now s \<le> now s' \<and>
      (\<exists>es. trace s' = trace s @ es \<and> list_all P es))"

fun is_save :: "event \<Rightarrow> bool" where
  "is_save (SaveContext u i c) = True"
| "is_save ev = False"

text \<open>Calls to the vector stores, the enrichment and the conversation memory.\<close>

fun retrieval_or_memory :: "event \<Rightarrow> bool" where
  "retrieval_or_memory (PineconeQuery k v) = True"
| "retrieval_or_memory (MongoAggregate c i v k) = True"
| "retrieval_or_memory (ExternalAPI a) = True"
| "retrieval_or_memory (GetMemory u) = True"
| "retrieval_or_memory (LoadMemoryVariables u) = True"
| "retrieval_or_memory (SummarizeChatHistory h) = True"
| "retrieval_or_memory (SaveContext u i c) = True"
| "retrieval_or_memory ev = False"

text \<open>From \<open>s\<close> to \<open>s'\<close> nothing was committed: both caches and every recorded history
  are as they were, and no save was asked of the memory.\<close>

definition no_commit :: "world \<Rightarrow> world \<Rightarrow> bool" where
  "no_commit s s' =
     (cache s' = cache s \<and> messageCache s' = messageCache s \<and>
      (\<forall>u. histories s' u = histories s u) \<and>
      (\<exists>es. trace s' = trace s @ es \<and> list_all (\<lambda>ev. \<not> is_save ev) es))"



text \<open>\<^verbatim>\<open>if (messageId)\<close>: the options carry a non-empty message id.\<close>

definition has_messageId :: "options \<Rightarrow> bool" where
  "has_messageId opts = (case messageId opts of None \<Rightarrow> False | Some mid \<Rightarrow> mid \<noteq> [])"

text \<open>An enrichment call that is rejected, to see what the orchestrator does with a
  rejection.\<close>

definition failing_api :: "string \<Rightarrow> world \<Rightarrow> (error + jsval list) \<times> world" where
  "failing_api apiName s =
     (Inl (Rejected ''enrichment unavailable''), s\<lparr>trace := trace s @ [ExternalAPI apiName]\<rparr>)"

text \<open>Variants of the concrete environment: a classifier that sees a plain greeting; a
  completion service that rejects every request; one that answers with empty text.\<close>

definition env_greeting :: env where
  "env_greeting = env0\<lparr>jsonParse := (\<lambda>text. Inr greeting_intent),
     openai_chat := (\<lambda>request h. Inr [Some ''Hello! How can I help?''])\<rparr>"

definition env_overloaded :: env where
  "env_overloaded = env0\<lparr>openai_chat := (\<lambda>request h. Inl (Rejected ''overloaded''))\<rparr>"

definition env_silent :: env where
  "env_silent = env_greeting\<lparr>openai_chat := (\<lambda>request h. Inr [Some []])\<rparr>"




text \<open>The response of the concrete environment to a support request, and the options
  and worlds used with it.\<close>

definition response0 :: response where
  "response0 =
     \<lparr>matches =
        [\<lparr>wc_text = ''change email'', wc_language = Some ''en'', wc_source = None, wc_score = 3\<rparr>,
         \<lparr>wc_text = ''pagamento'', wc_language = Some ''pt'', wc_source = None, wc_score = 2\<rparr>,
         \<lparr>wc_text = ''reset password'', wc_language = Some ''en'', wc_source = None, wc_score = 1\<rparr>],
      apiResults = [], answer = Some ''Here is how.''\<rparr>"

definition options_m1 :: options where
  "options_m1 = [MessageId ''m1'']"


definition options_api :: options where
  "options_api = [EnableAPIQuery True]"

definition world_seen_m1 :: world where
  "world_seen_m1 = world0\<lparr>now := 1000, messageCache := [''m1'' \<mapsto> (True, 300000)]\<rparr>"

subsection \<open>Scanning a JSON text\<close>

text \<open>A scanner that tells string content from structure in a text, used to show that
  no JSON object text ends in another one: it tracks whether it is outside a string,
  inside one, or after a backslash inside one, and the nesting depth of braces and
  brackets outside strings. It gives up on a backslash outside a string and when the
  depth would fall below the floor \<open>f\<close>.\<close>

datatype mode = Outside | Inside | Escaped

fun scan_step :: "nat \<Rightarrow> mode \<times> nat \<Rightarrow> char \<Rightarrow> (mode \<times> nat) option" where
  "scan_step f (Outside, d) c =
     (if c = CHR 0x22 then Some (Inside, d)
      else if c = CHR 0x5C then None
      else if c = CHR ''{'' \<or> c = CHR ''['' then Some (Outside, Suc d)
      else if c = CHR ''}'' \<or> c = CHR '']'' then (if f < d then Some (Outside, d - 1) else None)
      else Some (Outside, d))"
| "scan_step f (Inside, d) c =
     (if c = CHR 0x22 then Some (Outside, d)
      else if c = CHR 0x5C then Some (Escaped, d)
      else Some (Inside, d))"
| "scan_step f (Escaped, d) c = Some (Inside, d)"

fun scan :: "nat \<Rightarrow> mode \<times> nat \<Rightarrow> string \<Rightarrow> (mode \<times> nat) option" where
  "scan f st [] = Some st"
| "scan f st (c # cs) = (case scan_step f st c of None \<Rightarrow> None | Some st' \<Rightarrow> scan f st' cs)"

text \<open>The characters the scanner reacts to outside a string.\<close>

definition structural :: "char \<Rightarrow> bool" where
  "structural c = (c = CHR 0x22 \<or> c = CHR 0x5C \<or> c = CHR ''{'' \<or> c = CHR ''['' \<or>
     c = CHR ''}'' \<or> c = CHR '']'')"

subsection \<open>Notions for reading a JSON text back\<close>

definition opposite :: "mode \<Rightarrow> mode \<Rightarrow> bool" where
  "opposite m m' = ((m = Inside \<and> m' = Outside) \<or> (m = Outside \<and> m' = Inside))"

definition is_digit :: "char \<Rightarrow> bool" where
  "is_digit c = (48 \<le> (of_char c :: nat) \<and> (of_char c :: nat) \<le> 57)"

definition ends_number :: "string \<Rightarrow> bool" where
  "ends_number r = (case r of [] \<Rightarrow> True | c # cs \<Rightarrow> \<not> is_digit c)"

definition digits_value :: "string \<Rightarrow> nat" where
  "digits_value s = foldl (\<lambda>a c. 10 * a + (of_char c - 48)) 0 s"

definition needs_escape :: "char \<Rightarrow> bool" where
  "needs_escape c = (c = CHR 0x22 \<or> c = CHR 0x5C \<or> (of_char c :: nat) < 32)"

definition escape_tail :: "char \<Rightarrow> string" where
  "escape_tail c =
     (if c = CHR 0x22 then [CHR 0x22]
      else if c = CHR 0x5C then [CHR 0x5C]
      else if c = CHR 0x08 then [CHR ''b'']
      else if c = CHR 0x09 then [CHR ''t'']
      else if c = CHR 0x0A then [CHR ''n'']
      else if c = CHR 0x0C then [CHR ''f'']
      else if c = CHR 0x0D then [CHR ''r'']
      else [CHR ''u'', CHR ''0'', CHR ''0'',
         hex_char (of_char c div 16), hex_char (of_char c mod 16)])"

fun defined :: "jsval \<Rightarrow> bool"
  and defined_list :: "jsval list \<Rightarrow> bool"
  and defined_props :: "(string \<times> jsval) list \<Rightarrow> bool" where
  "defined JUndefined = False"
| "defined (JArr xs) = defined_list xs"
| "defined (JObj kvs) = defined_props kvs"
| "defined JNull = True"
| "defined (JBool b) = True"
| "defined (JNum i) = True"
| "defined (JStr s) = True"
| "defined_list [] = True"
| "defined_list (x # xs) = (defined x \<and> defined_list xs)"
| "defined_props [] = True"
| "defined_props ((k, v) # kvs) = (defined v \<and> defined_props kvs)"

definition elements_body :: "jsval list \<Rightarrow> string" where
  "elements_body xs = join '','' (JSON_elements xs) @ '']''"

definition members_body :: "(string \<times> jsval) list \<Rightarrow> string" where
  "members_body kvs = join '','' (JSON_members kvs) @ ''}''"

text \<open>The first character of a text tells the kind of value.\<close>

fun leads :: "jsval \<Rightarrow> char \<Rightarrow> bool" where
  "leads JUndefined c = True"
| "leads JNull c = (c = CHR ''n'')"
| "leads (JBool b) c = (c = (if b then CHR ''t'' else CHR ''f''))"
| "leads (JNum i) c = (is_digit c \<or> c = CHR ''-'')"
| "leads (JStr s) c = (c = CHR 0x22)"
| "leads (JArr xs) c = (c = CHR ''['')"
| "leads (JObj kvs) c = (c = CHR ''{'')"

text \<open>The integers that are JavaScript numbers written in plain decimal digits.\<close>

definition safe_integer :: "int \<Rightarrow> bool" where
  "safe_integer i = (\<bar>i\<bar> \<le> 9007199254740991)"

fun safe_numbers :: "jsval \<Rightarrow> bool"
  and safe_numbers_list :: "jsval list \<Rightarrow> bool"
  and safe_numbers_props :: "(string \<times> jsval) list \<Rightarrow> bool" where
  "safe_numbers (JNum i) = safe_integer i"
| "safe_numbers (JArr xs) = safe_numbers_list xs"
| "safe_numbers (JObj kvs) = safe_numbers_props kvs"
| "safe_numbers JUndefined = True"
| "safe_numbers JNull = True"
| "safe_numbers (JBool b) = True"
| "safe_numbers (JStr s) = True"
| "safe_numbers_list [] = True"
| "safe_numbers_list (x # xs) = (safe_numbers x \<and> safe_numbers_list xs)"
| "safe_numbers_props [] = True"
| "safe_numbers_props ((k, v) # kvs) = (safe_numbers v \<and> safe_numbers_props kvs)"

text \<open>Options whose numbers are safe integers: the payloads that the values above
  represent exactly.\<close>

fun safe_property :: "option_property \<Rightarrow> bool" where
  "safe_property (TopK k) = safe_integer k"
| "safe_property (Context v) = safe_numbers v"
| "safe_property p = True"

definition safe_options :: "options \<Rightarrow> bool" where
  "safe_options opts = list_all safe_property opts"

text \<open>Options made of JSON data only: \<open>topK\<close> is a safe integer and the \<open>context\<close>
  holds no \<^verbatim>\<open>undefined\<close> and only safe integers.\<close>

fun plain_property :: "option_property \<Rightarrow> bool" where
  "plain_property (TopK k) = safe_integer k"
| "plain_property (Context v) = (defined v \<and> safe_numbers v)"
| "plain_property p = True"

definition plain_options :: "options \<Rightarrow> bool" where
  "plain_options opts = list_all plain_property opts"

section \<open>Properties\<close>

subsection \<open>retry\<close>

lemma retry_loop_unfold:
  "retry_loop fn m i s =
     (if i < m then
        (case fn s of
           (Inr v, s') \<Rightarrow> (Inr (Some v), s')
         | (Inl e, s') \<Rightarrow>
             if i = m - 1 then (Inl e, s')
             else retry_loop fn m (i + 1) (sleep (1000 * 2 ^ nat i) s'))
      else (Inr None, s))"
  by (rule retry_loop.simps)

declare retry_loop.simps [simp del]

lemma retry_loop_done: "m \<le> i \<Longrightarrow> retry_loop fn m i s = (Inr None, s)"
  by (subst retry_loop_unfold) simp

lemma schedule_nonempty: "0 < n \<Longrightarrow> schedule ev i n \<noteq> []"
  by (cases n; cases "n - 1") auto

lemma length_schedule: "length (schedule ev i n) = 2 * n - 1"
  by (induction ev i n rule: schedule.induct) auto

lemma schedule_calls: "k < n \<Longrightarrow> schedule ev i n ! (2 * k) = ev"
proof (induction ev i n arbitrary: k rule: schedule.induct)
  case (3 ev i n)
  then show ?case by (cases k) auto
qed auto

lemma schedule_waits: "Suc k < n \<Longrightarrow> schedule ev i n ! (2 * k + 1) = Sleep (1000 * 2 ^ (i + k))"
proof (induction ev i n arbitrary: k rule: schedule.induct)
  case (3 ev i n)
  then show ?case by (cases k) auto
qed auto

lemma retry_loop_always_fails:
  assumes fails: "\<And>h. isl (answer_of h)"
  shows "0 \<le> i \<Longrightarrow> nat (m - i) = Suc k \<Longrightarrow>
     fst (retry_loop (invoke ev answer_of) m i s) =
        Inl (projl (answer_of (trace s @ butlast (schedule ev (nat i) (Suc k))))) \<and>
     trace (snd (retry_loop (invoke ev answer_of) m i s)) = trace s @ schedule ev (nat i) (Suc k)"
proof (induction k arbitrary: i s)
  case 0
  then have im: "i < m" "i = m - 1" by auto
  obtain e where e: "answer_of (trace s) = Inl e"
    using fails[of "trace s"] by (cases "answer_of (trace s)") auto
  show ?case
    by (subst (1 2) retry_loop_unfold) (simp add: im invoke_def e)
next
  case (Suc k)
  then have im: "i < m" "i \<noteq> m - 1" by auto
  obtain e where e: "answer_of (trace s) = Inl e"
    using fails[of "trace s"] by (cases "answer_of (trace s)") auto
  let ?s1 = "sleep (1000 * 2 ^ nat i) (s\<lparr>trace := trace s @ [ev]\<rparr>)"
  have n1: "nat (m - (i + 1)) = Suc k" using Suc.prems by auto
  have i1: "nat (i + 1) = Suc (nat i)" using Suc.prems by auto
  have ih: "fst (retry_loop (invoke ev answer_of) m (i + 1) ?s1) =
        Inl (projl (answer_of (trace ?s1 @ butlast (schedule ev (nat (i + 1)) (Suc k))))) \<and>
     trace (snd (retry_loop (invoke ev answer_of) m (i + 1) ?s1)) =
        trace ?s1 @ schedule ev (nat (i + 1)) (Suc k)"
    using Suc.IH[of "i + 1" ?s1] Suc.prems n1 by simp
  have ne: "schedule ev (Suc (nat i)) (Suc k) \<noteq> []" by (rule schedule_nonempty) simp
  have step: "retry_loop (invoke ev answer_of) m i s = retry_loop (invoke ev answer_of) m (i + 1) ?s1"
    by (subst retry_loop_unfold) (simp add: im invoke_def e)
  show ?case
    unfolding step using ih by (simp add: i1 sleep_def ne del: schedule.simps) (simp add: ne)
qed

lemma retry_loop_never_undefined:
  "0 \<le> i \<Longrightarrow> i < m \<Longrightarrow> fst (retry_loop fn m i s) \<noteq> Inr None"
proof (induction "nat (m - i)" arbitrary: i s)
  case 0
  then show ?case by simp
next
  case (Suc k)
  obtain r1 s1 where f: "fn s = (r1, s1)" by (cases "fn s")
  show ?case
  proof (cases "i = m - 1")
    case True
    then show ?thesis using Suc.prems f by (subst retry_loop_unfold) (simp split: sum.splits)
  next
    case False
    have k: "k = nat (m - (i + 1))" using Suc.hyps(2) by simp
    have "fst (retry_loop fn m (i + 1) (sleep (1000 * 2 ^ nat i) s1)) \<noteq> Inr None"
      using Suc.hyps(1)[OF k] Suc.prems False by simp
    then show ?thesis using Suc.prems f False by (subst retry_loop_unfold) (simp split: sum.splits)
  qed
qed

lemma retry_default_defined: "retry_default fn s \<noteq> (Inr None, s')"
  using retry_loop_never_undefined[of 0 3 fn s] by (auto simp: retry_default_def retry_def)

lemma attempt_world_shift:
  "attempt_world fn (Suc i) k (sleep (1000 * 2 ^ i) (snd (fn s))) = attempt_world fn i (Suc k) s"
proof (induction k)
  case 0
  then show ?case by (simp add: sleep_def Let_def)
next
  case (Suc k)
  show ?case
    by (subst attempt_world.simps(2)) (simp only: Suc add_Suc add_Suc_right attempt_world.simps(2)[of fn i "Suc k"])
qed

lemma retry_loop_exhausted:
  assumes fails: "\<And>w. isl (fst (fn w))"
  shows "0 \<le> i \<Longrightarrow> nat (m - i) = Suc k \<Longrightarrow>
     retry_loop fn m i s =
       (Inl (projl (fst (fn (attempt_world fn (nat i) k s)))), snd (fn (attempt_world fn (nat i) k s)))"
proof (induction k arbitrary: i s)
  case 0
  then have im: "i < m" "i = m - 1" by auto
  obtain e s1 where e: "fn s = (Inl e, s1)"
    using fails[of s] by (cases "fn s"; cases "fst (fn s)") auto
  show ?case
    by (subst retry_loop_unfold) (simp add: im e)
next
  case (Suc k)
  then have im: "i < m" "i \<noteq> m - 1" by auto
  obtain e s1 where e: "fn s = (Inl e, s1)"
    using fails[of s] by (cases "fn s"; cases "fst (fn s)") auto
  have n1: "nat (m - (i + 1)) = Suc k" using Suc.prems by auto
  have i1: "nat (i + 1) = Suc (nat i)" using Suc.prems by auto
  have s1: "s1 = snd (fn s)" using e by simp
  have "retry_loop fn m i s = retry_loop fn m (i + 1) (sleep (1000 * 2 ^ nat i) s1)"
    by (subst retry_loop_unfold) (simp add: im e)
  also have "\<dots> = (Inl (projl (fst (fn (attempt_world fn (nat (i + 1)) k (sleep (1000 * 2 ^ nat i) s1))))),
       snd (fn (attempt_world fn (nat (i + 1)) k (sleep (1000 * 2 ^ nat i) s1))))"
    using Suc.IH[of "i + 1" "sleep (1000 * 2 ^ nat i) s1"] Suc.prems n1 by simp
  also have "attempt_world fn (nat (i + 1)) k (sleep (1000 * 2 ^ nat i) s1) =
       attempt_world fn (nat i) (Suc k) s"
    unfolding i1 s1 by (rule attempt_world_shift)
  finally show ?case .
qed

lemma attempt_world_invoke_now:
  "now (attempt_world (invoke ev answer_of) 0 k s) + 1000 = now s + 1000 * 2 ^ k"
proof (induction k)
  case 0
  then show ?case by simp
next
  case (Suc k)
  have "now (attempt_world (invoke ev answer_of) 0 (Suc k) s) =
      now (attempt_world (invoke ev answer_of) 0 k s) + 1000 * 2 ^ k"
    by (simp add: Let_def invoke_def)
  then show ?case using Suc by simp
qed

text \<open>
  Claim C3. Let \<open>fn\<close> be any operation that fails in every world, retried with
  \<open>n \<ge> 1\<close>. The run of \<open>retry\<close> is the run of the \<open>n\<close> attempts of the contract and
  nothing else: the \<open>n\<close>-th attempt is made in the world \<open>attempt_world fn 0 (n - 1)\<close>,
  reached from the start through the \<open>n - 1\<close> earlier attempts, each followed by a
  timer of \<open>1000 * 2 ^ k\<close> milliseconds and a clock moved on by as much; the error thrown
  is the one of the \<open>n\<close>-th attempt and the world is the one that attempt left. For an
  operation that is one recorded call, the trace grows by exactly \<open>n\<close> calls (at the even
  positions) with the waits 1000, 2000, 4000, ... between them, and the clock by their
  sum \<open>1000 * (2 ^ (n - 1) - 1)\<close>.
\<close>

theorem retry_exhaustion:
  assumes "\<forall>w. isl (fst (fn w))" and "1 \<le> n"
  shows "fst (retry fn (int n) s) = Inl (projl (fst (fn (attempt_world fn 0 (n - 1) s)))) \<and>
         snd (retry fn (int n) s) = snd (fn (attempt_world fn 0 (n - 1) s)) \<and>
         attempt_world fn 0 0 s = s \<and>
         (\<forall>k. now (attempt_world fn 0 (Suc k) s) =
                now (snd (fn (attempt_world fn 0 k s))) + 1000 * 2 ^ k \<and>
              trace (attempt_world fn 0 (Suc k) s) =
                trace (snd (fn (attempt_world fn 0 k s))) @ [Sleep (1000 * 2 ^ k)]) \<and>
         (\<forall>ev answer_of. fn = invoke ev answer_of \<longrightarrow>
            trace (snd (retry fn (int n) s)) = trace s @ schedule ev 0 n \<and>
            now (snd (retry fn (int n) s)) + 1000 = now s + 1000 * 2 ^ (n - 1) \<and>
            length (schedule ev 0 n) = 2 * n - 1 \<and>
            (\<forall>k<n. schedule ev 0 n ! (2 * k) = ev) \<and>
            (\<forall>k. Suc k < n \<longrightarrow> schedule ev 0 n ! (2 * k + 1) = Sleep (1000 * 2 ^ k)))"
proof -
  obtain k where k: "n = Suc k" using assms(2) by (cases n) auto
  have nk: "nat (int n - 0) = Suc k" using k by simp
  have r: "retry fn (int n) s =
      (Inl (projl (fst (fn (attempt_world fn 0 k s)))), snd (fn (attempt_world fn 0 k s)))"
    using retry_loop_exhausted[where fn = fn and i = 0 and m = "int n" and k = k and s = s, OF _ _ nk]
      assms(1) by (simp add: retry_def)
  have a: "fst (retry fn (int n) s) = Inl (projl (fst (fn (attempt_world fn 0 (n - 1) s)))) \<and>
         snd (retry fn (int n) s) = snd (fn (attempt_world fn 0 (n - 1) s))"
  proof -
    have "n - 1 = k" using k by simp
    then show ?thesis by (simp only: r fst_conv snd_conv)
  qed
  have b: "\<forall>k. now (attempt_world fn 0 (Suc k) s) =
                now (snd (fn (attempt_world fn 0 k s))) + 1000 * 2 ^ k \<and>
              trace (attempt_world fn 0 (Suc k) s) =
                trace (snd (fn (attempt_world fn 0 k s))) @ [Sleep (1000 * 2 ^ k)]"
    by (simp add: Let_def)
  have c: "trace (snd (retry fn (int n) s)) = trace s @ schedule ev 0 n \<and>
            now (snd (retry fn (int n) s)) + 1000 = now s + 1000 * 2 ^ (n - 1)"
    if f: "fn = invoke ev answer_of" for ev answer_of
  proof -
    have fails: "\<And>h. isl (answer_of h)"
    proof -
      fix h
      have "isl (fst (fn (world0\<lparr>trace := h\<rparr>)))" using assms(1) by blast
      then show "isl (answer_of h)" by (simp add: f invoke_def)
    qed
    have t: "trace (snd (retry (invoke ev answer_of) (int n) s)) = trace s @ schedule ev 0 n"
      using retry_loop_always_fails[where answer_of = answer_of and i = 0 and m = "int n"
          and k = k and ev = ev and s = s, OF fails _ nk]
      by (simp add: retry_def k)
    have "snd (retry fn (int n) s) = snd (fn (attempt_world fn 0 k s))"
      by (simp only: r snd_conv)
    then have "now (snd (retry fn (int n) s)) = now (attempt_world fn 0 k s)"
      unfolding f by (simp add: invoke_def)
    then have "now (snd (retry fn (int n) s)) + 1000 = now s + 1000 * 2 ^ k"
      using attempt_world_invoke_now[of ev answer_of k s] by (simp add: f)
    then show ?thesis using t by (simp add: f k)
  qed
  show ?thesis
    using a b c length_schedule[of _ 0 n] schedule_calls[of _ n _ 0] schedule_waits[of _ n _ 0]
    by simp
qed

theorem retry_exhaustion_witness:
  "(\<forall>w. isl (fst (invoke (Invoke ''op'') (\<lambda>h. Inl (Rejected ''down'') :: error + nat) w))) \<and>
   (1::nat) \<le> 3 \<and>
   fst (retry (invoke (Invoke ''op'') (\<lambda>h. Inl (Rejected ''down'') :: error + nat)) 3 world0) =
     Inl (Rejected ''down'') \<and>
   trace (snd (retry (invoke (Invoke ''op'') (\<lambda>h. Inl (Rejected ''down'') :: error + nat)) 3 world0)) =
     [Invoke ''op'', Sleep 1000, Invoke ''op'', Sleep 2000, Invoke ''op''] \<and>
   now (snd (retry (invoke (Invoke ''op'') (\<lambda>h. Inl (Rejected ''down'') :: error + nat)) 3 world0)) =
     3000"
proof -
  let ?fn = "invoke (Invoke ''op'') (\<lambda>h. Inl (Rejected ''down'') :: error + nat)"
  have h: "\<forall>w. isl (fst (?fn w))"
    by (simp add: invoke_def)
  have n: "(1::nat) \<le> 3" by simp
  note th = retry_exhaustion[OF h n, of world0]
  from th have a: "fst (retry ?fn (int 3) world0) =
      Inl (projl (fst (?fn (attempt_world ?fn 0 (3 - 1) world0))))"
    by blast
  from th have b: "trace (snd (retry ?fn (int 3) world0)) = trace world0 @ schedule (Invoke ''op'') 0 3 \<and>
      now (snd (retry ?fn (int 3) world0)) + 1000 = now world0 + 1000 * 2 ^ (3 - 1)"
    by blast
  from a have "fst (retry ?fn 3 world0) = Inl (Rejected ''down'')"
    by (simp add: invoke_def)
  moreover from b have "trace (snd (retry ?fn 3 world0)) =
     [Invoke ''op'', Sleep 1000, Invoke ''op'', Sleep 2000, Invoke ''op''] \<and>
     now (snd (retry ?fn 3 world0)) = 3000"
    by (simp add: world0_def numeral_3_eq_3)
  ultimately show ?thesis using h by simp
qed

text \<open>
  Claim C10, as amended. With \<open>maxRetries \<le> 0\<close> the loop body is never entered:
  whatever the operation, \<open>retry\<close> resolves to \<^verbatim>\<open>undefined\<close> (\<open>Inr None\<close>) in an
  unchanged world, so the operation was not called and nothing was thrown. With the
  default \<open>maxRetries = 3\<close>, which is what every call site of the module uses (\<open>retry\<close>
  is not exported), \<open>retry\<close> never resolves to \<^verbatim>\<open>undefined\<close>.
\<close>

theorem retry_nonpositive:
  "(maxRetries \<le> 0 \<longrightarrow> retry fn maxRetries s = (Inr None, s)) \<and>
   fst (retry_default fn' s') \<noteq> Inr None"
  using retry_loop_never_undefined[of 0 3 fn' s']
  by (simp add: retry_def retry_default_def retry_loop_done)

theorem retry_nonpositive_witness:
  "(0::int) \<le> 0 \<and>
   retry (invoke (Invoke ''op'') (\<lambda>h. Inr (1::nat))) 0 world0 = (Inr None, world0) \<and>
   fst (retry_default (invoke (Invoke ''op'') (\<lambda>h. Inr (1::nat))) world0) \<noteq> Inr None"
  using retry_nonpositive[where maxRetries = 0
      and fn = "invoke (Invoke ''op'') (\<lambda>h. Inr (1::nat))" and s = world0
      and fn' = "invoke (Invoke ''op'') (\<lambda>h. Inr (1::nat))" and s' = world0]
  by simp

text \<open>The claim C10 as stated goes on to say that callers can receive
  \<^verbatim>\<open>undefined\<close> from a retried stage. They cannot: every retried stage of the module
  runs with the default, and that never resolves to \<^verbatim>\<open>undefined\<close>.\<close>

theorem retry_nonpositive_counterexample:
  "(\<forall>(fn :: world \<Rightarrow> (error + 'a) \<times> world) s. fst (retry_default fn s) \<noteq> Inr None) \<and>
   fst (retry_default (invoke (EmbedQuery ''pay'') (\<lambda>h. Inr [1, 0 :: real])) world0) =
     Inr (Some [1, 0]) \<and>
   fst (retry_default (invoke (EmbedQuery ''pay'')
          (\<lambda>h. Inl (Rejected ''embedding unavailable'') :: error + real list)) world0) =
     Inl (Rejected ''embedding unavailable'')"
proof (intro conjI allI)
  fix fn :: "world \<Rightarrow> (error + 'a) \<times> world" and s
  show "fst (retry_default fn s) \<noteq> Inr None"
    using retry_loop_never_undefined[of 0 3 fn s] by (simp add: retry_def retry_default_def)
next
  show "fst (retry_default (invoke (EmbedQuery ''pay'') (\<lambda>h. Inr [1, 0 :: real])) world0) =
     Inr (Some [1, 0])"
    by (simp add: retry_default_def retry_def retry_loop_unfold invoke_def)
next
  show "fst (retry_default (invoke (EmbedQuery ''pay'')
          (\<lambda>h. Inl (Rejected ''embedding unavailable'') :: error + real list)) world0) =
     Inl (Rejected ''embedding unavailable'')"
    by (simp add: retry_default_def retry_def retry_loop_unfold invoke_def sleep_def)
qed


subsection \<open>The mongodb branch of queryVectorStore\<close>

lemma filter_enumerate_le:
  "map snd (filter (\<lambda>(i, x). int i \<le> k) (enumerate n xs)) = take (nat (k + 1 - int n)) xs"
proof (induction xs arbitrary: n)
  case Nil
  then show ?case by simp
next
  case (Cons x xs)
  show ?case
  proof (cases "int n \<le> k")
    case True
    then have "nat (k + 1 - int n) = Suc (nat (k + 1 - int (Suc n)))" by simp
    then show ?thesis using True Cons.IH[of "Suc n"] by simp
  next
    case False
    then have z: "nat (k + 1 - int n) = 0" by simp
    have "filter (\<lambda>(i, x). int i \<le> k) (enumerate (Suc n) xs) = []"
      using False by (auto simp: filter_empty_conv in_set_enumerate_eq)
    then show ?thesis using False z by simp
  qed
qed

lemma filter_index_le_take: "filter_index_le k xs = take (nat (k + 1)) xs"
  using filter_enumerate_le[of k 0 xs] by (simp add: filter_index_le_def)

lemma topResults_neg: "k < 0 \<Longrightarrow> topResults k xs = []"
  by (simp add: topResults_def filter_index_le_take sort_by_score_desc_def slice0_def)

lemma topResults_nonneg:
  "0 \<le> k \<Longrightarrow> topResults k xs = take (nat k) (sort_key (\<lambda>r. - score r) (take (nat k + 1) xs))"
  by (simp add: topResults_def filter_index_le_take sort_by_score_desc_def slice0_def nat_add_distrib)

lemma sorted_take_drop:
  assumes "sorted (map f L)" "x \<in> set (take n L)" "y \<in> set (drop n L)"
  shows "f x \<le> f y"
proof -
  have "sorted (map f (take n L) @ map f (drop n L))"
    using assms(1) by (simp flip: map_append)
  then show ?thesis using assms(2,3) by (auto simp: sorted_append)
qed

lemma topResults_length: "0 \<le> k \<Longrightarrow> int (length (topResults k xs)) \<le> k"
  by (simp add: topResults_nonneg)

lemma topResults_sorted: "sorted_wrt (\<lambda>a b. score b \<le> score a) (topResults k xs)"
proof (cases "k < 0")
  case True
  then show ?thesis by (simp add: topResults_neg)
next
  case False
  have "sorted (map (\<lambda>r. - score r) (take (nat k) (sort_key (\<lambda>r. - score r) (take (nat k + 1) xs))))"
    by (simp add: sorted_wrt_take flip: take_map)
  then show ?thesis using False
    by (simp add: topResults_nonneg sorted_map sorted_wrt_iff_nth_less)
qed

lemma topResults_global:
  assumes "0 \<le> k" "int (length xs) \<le> k + 1"
  shows "\<forall>x \<in> set (topResults k xs). \<forall>y \<in># mset xs - mset (topResults k xs). score y \<le> score x"
proof -
  let ?L = "sort_key (\<lambda>r. - score r) xs"
  have t: "take (nat k + 1) xs = xs" using assms by simp
  have r: "topResults k xs = take (nat k) ?L" using assms(1) by (simp only: topResults_nonneg t)
  have "mset xs = mset (take (nat k) ?L) + mset (drop (nat k) ?L)"
    by (simp flip: mset_append)
  then have ex: "mset xs - mset (topResults k xs) = mset (drop (nat k) ?L)"
    by (simp add: r)
  have s: "sorted (map (\<lambda>r. - score r) ?L)" by simp
  show ?thesis
    unfolding ex unfolding r
    using sorted_take_drop[OF s] by fastforce
qed

lemma or_5_idem: "or_5 (topK_or_5 k) = topK_or_5 k"
  by (simp add: or_5_def topK_or_5_def split: option.splits)

lemma queryVectorStore_mongodb:
  "queryVectorStore env ''mongodb'' qv requested s =
     (case collection_aggregate env ''docs'' ''vectorDocsIndex'' qv (topK_or_5 requested) (trace s) of
        Inl e \<Rightarrow> Inl e
      | Inr docs \<Rightarrow> Inr (Some (topResults (topK_or_5 requested) (map reshape docs))),
      s\<lparr>trace := trace s @
         [MongoAggregate ''docs'' ''vectorDocsIndex'' qv (topK_or_5 requested)]\<rparr>)"
  by (simp add: queryVectorStore_def queryMongoCollection_def await_def invoke_def return_def
      or_5_idem split: sum.splits)

text \<open>
  Claim C4, as amended. Let \<open>K\<close> be \<^verbatim>\<open>options.topK || 5\<close> (an absent or zero request
  means 5). When the search of the \<open>docs\<close> collection answers with \<open>docs\<close>, the call
  returns \<open>topResults K\<close> of them: sorted by descending score; of length at most \<open>K\<close>
  when \<open>K\<close> is not negative; and, when the collection answered with at most \<open>K + 1\<close>
  candidates, no candidate left out has a higher score than a match returned.
\<close>

theorem queryVectorStore_mongodb_topK:
  assumes "collection_aggregate env ''docs'' ''vectorDocsIndex'' qv (topK_or_5 requested) (trace s)
             = Inr docs"
  shows "fst (queryVectorStore env ''mongodb'' qv requested s) =
           Inr (Some (topResults (topK_or_5 requested) (map reshape docs))) \<and>
         sorted_wrt (\<lambda>a b. score b \<le> score a) (topResults (topK_or_5 requested) (map reshape docs)) \<and>
         (0 \<le> topK_or_5 requested \<longrightarrow>
            int (length (topResults (topK_or_5 requested) (map reshape docs))) \<le> topK_or_5 requested) \<and>
         (0 \<le> topK_or_5 requested \<and> int (length docs) \<le> topK_or_5 requested + 1 \<longrightarrow>
            (\<forall>x \<in> set (topResults (topK_or_5 requested) (map reshape docs)).
               \<forall>y \<in># mset (map reshape docs) - mset (topResults (topK_or_5 requested) (map reshape docs)).
                 score y \<le> score x))"
proof -
  have "fst (queryVectorStore env ''mongodb'' qv requested s) =
           Inr (Some (topResults (topK_or_5 requested) (map reshape docs)))"
    by (simp add: queryVectorStore_mongodb assms)
  moreover have "0 \<le> topK_or_5 requested \<and> int (length docs) \<le> topK_or_5 requested + 1 \<longrightarrow>
            (\<forall>x \<in> set (topResults (topK_or_5 requested) (map reshape docs)).
               \<forall>y \<in># mset (map reshape docs) - mset (topResults (topK_or_5 requested) (map reshape docs)).
                 score y \<le> score x)"
    using topResults_global[of "topK_or_5 requested" "map reshape docs"] by simp
  ultimately show ?thesis
    using topResults_sorted topResults_length by blast
qed

theorem queryVectorStore_mongodb_topK_witness:
  "collection_aggregate env0 ''docs'' ''vectorDocsIndex'' (Some [1, 0]) (topK_or_5 (Some 3))
     (trace world0) = Inr docs0 \<and>
   fst (queryVectorStore env0 ''mongodb'' (Some [1, 0]) (Some 3) world0) =
     Inr (Some (map reshape [docs0 ! 1, docs0 ! 2, docs0 ! 0])) \<and>
   (0::int) \<le> topK_or_5 (Some 3) \<and> int (length docs0) \<le> topK_or_5 (Some 3) + 1"
  using queryVectorStore_mongodb_topK[where env = env0 and qv = "Some [1, 0]"
      and requested = "Some 3" and s = world0 and docs = docs0]
  by (simp add: env0_def docs0_def topK_or_5_def or_5_def topResults_def filter_index_le_def
      sort_by_score_desc_def slice0_def reshape_def enumerate_eq_zip upt_rec)

text \<open>The claim as stated fails for a requested \<open>topK\<close> of 0, which asks for 5: three
  matches come back.\<close>

theorem queryVectorStore_mongodb_topK_counterexample:
  "fst (queryVectorStore env0 ''mongodb'' (Some [1, 0]) (Some 0) world0) =
     Inr (Some (map reshape [docs0 ! 1, docs0 ! 2, docs0 ! 0])) \<and>
   \<not> int (length (map reshape [docs0 ! 1, docs0 ! 2, docs0 ! 0])) \<le> 0"
  by (simp add: queryVectorStore_mongodb env0_def docs0_def topK_or_5_def or_5_def
      topResults_def filter_index_le_def sort_by_score_desc_def slice0_def reshape_def
      enumerate_eq_zip upt_rec)

subsection \<open>Runs that only talk to the outside\<close>

lemma io_only_refl: "io_only P s s"
  by (simp add: io_only_def)

lemma io_only_trans: "io_only P s s1 \<Longrightarrow> io_only P s1 s2 \<Longrightarrow> io_only P s s2"
  by (auto simp: io_only_def)

lemma io_only_mono: "io_only P s s' \<Longrightarrow> (\<And>e. P e \<Longrightarrow> Q e) \<Longrightarrow> io_only Q s s'"
  by (auto simp: io_only_def list_all_iff)

lemma io_only_invoke: "invoke ev f s = (r, s') \<Longrightarrow> P ev \<Longrightarrow> io_only P s s'"
  by (auto simp: invoke_def io_only_def)

lemma io_only_sleep: "P (Sleep ms) \<Longrightarrow> io_only P s (sleep ms s)"
  by (auto simp: sleep_def io_only_def)

lemma io_only_retry_loop:
  assumes fn: "\<And>s r s'. fn s = (r, s') \<Longrightarrow> io_only P s s'" and sl: "\<And>ms. P (Sleep ms)"
  shows "retry_loop fn m i s = (r, s') \<Longrightarrow> io_only P s s'"
proof (induction "nat (m - i)" arbitrary: i s)
  case 0
  then show ?case by (simp add: retry_loop_done io_only_refl)
next
  case (Suc k)
  then have im: "i < m" by simp
  obtain r1 s1 where f: "fn s = (r1, s1)" by (cases "fn s")
  have s1: "io_only P s s1" using fn[OF f] .
  show ?case
  proof (cases r1)
    case (Inr v)
    then show ?thesis using Suc.prems s1 f im by (subst (asm) retry_loop_unfold) simp
  next
    case (Inl e)
    show ?thesis
    proof (cases "i = m - 1")
      case True
      then show ?thesis using Suc.prems s1 f im Inl by (subst (asm) retry_loop_unfold) simp
    next
      case False
      have k: "k = nat (m - (i + 1))" using Suc.hyps(2) by simp
      have "retry_loop fn m (i + 1) (sleep (1000 * 2 ^ nat i) s1) = (r, s')"
        using Suc.prems f im Inl False by (subst (asm) retry_loop_unfold) simp
      from Suc.hyps(1)[OF k this] have "io_only P (sleep (1000 * 2 ^ nat i) s1) s'" .
      moreover have "io_only P s1 (sleep (1000 * 2 ^ nat i) s1)"
        by (rule io_only_sleep) (rule sl)
      ultimately show ?thesis using s1 by (blast intro: io_only_trans)
    qed
  qed
qed

lemma io_only_retry_default:
  assumes "\<And>s r s'. fn s = (r, s') \<Longrightarrow> io_only P s s'" and "\<And>ms. P (Sleep ms)"
  shows "retry_default fn s = (r, s') \<Longrightarrow> io_only P s s'"
  unfolding retry_default_def retry_def
  by (rule io_only_retry_loop[where fn = fn and P = P]) (use assms in blast)+

lemma await_cases:
  assumes "await m k s = (r, s')"
  obtains e where "m s = (Inl e, s')" "r = Inl e"
        | v s1 where "m s = (Inr v, s1)" "k v s1 = (r, s')"
  using assms by (auto simp: await_def split: prod.splits sum.splits)

lemma retry_loop_invoke_success:
  "retry_loop (invoke ev f) m i s = (Inr (Some v), s') \<Longrightarrow>
     trace s' \<noteq> [] \<and> last (trace s') = ev \<and> f (butlast (trace s')) = Inr v \<and>
     prefix (trace s) (butlast (trace s'))"
proof (induction "nat (m - i)" arbitrary: i s)
  case 0
  then show ?case by (simp add: retry_loop_done)
next
  case (Suc k)
  then have im: "i < m" by simp
  show ?case
  proof (cases "f (trace s)")
    case (Inr v')
    then show ?thesis using Suc.prems im
      by (subst (asm) retry_loop_unfold) (auto simp: invoke_def)
  next
    case (Inl e)
    show ?thesis
    proof (cases "i = m - 1")
      case True
      then show ?thesis using Suc.prems im Inl
        by (subst (asm) retry_loop_unfold) (auto simp: invoke_def)
    next
      case False
      have k: "k = nat (m - (i + 1))" using Suc.hyps(2) by simp
      let ?s1 = "sleep (1000 * 2 ^ nat i) (s\<lparr>trace := trace s @ [ev]\<rparr>)"
      have "retry_loop (invoke ev f) m (i + 1) ?s1 = (Inr (Some v), s')"
        using Suc.prems im Inl False by (subst (asm) retry_loop_unfold) (simp add: invoke_def)
      from Suc.hyps(1)[OF k this]
      have *: "trace s' \<noteq> [] \<and> last (trace s') = ev \<and> f (butlast (trace s')) = Inr v \<and>
         prefix (trace ?s1) (butlast (trace s'))" .
      have "prefix (trace s) (trace ?s1)" by (simp add: sleep_def)
      with * show ?thesis using prefix_order.trans by blast
    qed
  qed
qed

subsection \<open>The pipeline\<close>

lemma io_only_analyzeUserIntent:
  assumes "analyzeUserIntent env q s = (r, s')" "P (ClassifyIntent q)"
  shows "io_only P s s'"
  using assms
  by (auto simp: analyzeUserIntent_def await_def invoke_def throw_def return_def io_only_def
      split: sum.splits prod.splits)

lemma io_only_queryVectorStore_mongodb:
  assumes "queryVectorStore env ''mongodb'' qv k s = (r, s')" "\<And>c i v n. P (MongoAggregate c i v n)"
  shows "io_only P s s'"
  using assms by (auto simp: queryVectorStore_mongodb io_only_def)

lemma io_only_queryExternalAPI:
  assumes "queryExternalAPI name s = (r, s')" "P (ExternalAPI name)"
  shows "io_only P s s'"
  using assms by (auto simp: queryExternalAPI_def io_only_def)

lemma io_only_return: "return v s = (r, s') \<Longrightarrow> io_only P s s'"
  by (auto simp: return_def io_only_def)

lemma io_only_throw: "throw e s = (r, s') \<Longrightarrow> io_only P s s'"
  by (auto simp: throw_def io_only_def)

lemma io_only_chat:
  assumes "retry_default (invoke (ChatCompletion req) f) s = (r, s')"
    and "\<And>req. P (ChatCompletion req)" and "\<And>ms. P (Sleep ms)"
  shows "io_only P s s'"
  by (rule io_only_retry_default[OF _ _ assms(1), where P = P])
     (auto intro: io_only_invoke assms)

lemma io_only_embed:
  assumes "retry_default (invoke (EmbedQuery q) f) s = (r, s')"
    and "P (EmbedQuery q)" and "\<And>ms. P (Sleep ms)"
  shows "io_only P s s'"
  by (rule io_only_retry_default[OF _ _ assms(1), where P = P])
     (auto intro: io_only_invoke assms)

lemma io_only_greetingBranch:
  assumes "greetingBranch env q s = (r, s')"
    and "\<And>req. P (ChatCompletion req)" and "\<And>ms. P (Sleep ms)"
  shows "io_only P s s'"
  using assms(1) unfolding greetingBranch_def
proof (cases rule: await_cases)
  case (1 e)
  then show ?thesis using io_only_chat assms(2,3) by blast
next
  case (2 v s1)
  then have "io_only P s s1" using io_only_chat assms(2,3) by blast
  moreover have "s' = s1" using 2(2) by (auto simp: throw_def return_def split: sum.splits)
  ultimately show ?thesis by simp
qed

lemma greetingBranch_result:
  "fst (greetingBranch env q s) = Inr r \<Longrightarrow>
     \<exists>a. r = Some \<lparr>matches = [], apiResults = [], answer = a\<rparr>"
  by (auto simp: greetingBranch_def await_def throw_def return_def split: prod.splits sum.splits)

lemma queryEmbeddings_greeting:
  assumes "\<not> duplicate_message opts s"
    and "cache_get (cache s) (cacheKey q opts) (now s) = None"
    and "retry_default (invoke (EmbedQuery q) (embeddings_embedQuery env q)) s = (Inr qv, s1)"
    and "analyzeUserIntent env q s1 = (Inr intent, s2)"
    and "is_pure_greeting intent = Inr True"
  shows "queryEmbeddings_with api env q opts s = greetingBranch env q s2"
  using assms by (simp add: queryEmbeddings_with_def process_def await_def)

lemma io_only_new_events:
  "io_only P s s' \<Longrightarrow> list_all P (new_events s s')"
  by (auto simp: io_only_def new_events_def)

text \<open>
  Claim C8. A turn that is neither suppressed nor served from the cache, whose embedding
  succeeds and whose classified intent passes the greeting test, is the greeting branch
  run after classification: a response it returns has empty \<open>matches\<close> and empty
  \<open>apiResults\<close>; the calls of the whole turn contain no vector-store query, no
  enrichment call and no call to the conversation memory or the summariser; memories
  and both caches are as before.
\<close>

theorem greeting_branch_purity:
  assumes "\<not> duplicate_message opts s"
    and "cache_get (cache s) (cacheKey q opts) (now s) = None"
    and "retry_default (invoke (EmbedQuery q) (embeddings_embedQuery env q)) s = (Inr qv, s1)"
    and "analyzeUserIntent env q s1 = (Inr intent, s2)"
    and "is_pure_greeting intent = Inr True"
  shows "queryEmbeddings env q opts s = greetingBranch env q s2 \<and>
         (\<forall>r. fst (queryEmbeddings env q opts s) = Inr r \<longrightarrow>
            (\<exists>a. r = Some \<lparr>matches = [], apiResults = [], answer = a\<rparr>)) \<and>
         list_all (\<lambda>ev. \<not> retrieval_or_memory ev)
           (new_events s (snd (queryEmbeddings env q opts s))) \<and>
         memories (snd (queryEmbeddings env q opts s)) = memories s \<and>
         cache (snd (queryEmbeddings env q opts s)) = cache s \<and>
         messageCache (snd (queryEmbeddings env q opts s)) = messageCache s"
proof -
  let ?P = "\<lambda>ev. \<not> retrieval_or_memory ev"
  have eq: "queryEmbeddings env q opts s = greetingBranch env q s2"
    unfolding queryEmbeddings_def by (rule queryEmbeddings_greeting[OF assms])
  have a: "io_only ?P s s1" by (rule io_only_embed[OF assms(3)]) simp_all
  have b: "io_only ?P s1 s2" by (rule io_only_analyzeUserIntent[OF assms(4)]) simp
  obtain r s' where g: "greetingBranch env q s2 = (r, s')" by (cases "greetingBranch env q s2")
  have c: "io_only ?P s2 s'" by (rule io_only_greetingBranch[OF g]) simp_all
  have all: "io_only ?P s s'" using a b c by (blast intro: io_only_trans)
  show ?thesis
    using greetingBranch_result[of env q s2] io_only_new_events[OF all] all
    by (simp add: eq g io_only_def)
qed

lemma await_Inr:
  "fst (await m k s) = Inr r \<Longrightarrow> \<exists>v s1. m s = (Inr v, s1) \<and> fst (k v s1) = Inr r"
  by (auto simp: await_def split: prod.splits sum.splits)

lemma finish_result:
  "fst (finish env q opts mem ctx api c s) = Inr r \<Longrightarrow>
     r = Some \<lparr>matches = ctx, apiResults = api, answer = c\<rparr>"
  by (auto simp: finish_def await_def return_def split: prod.splits sum.splits)

lemma retrievalBranch_result:
  assumes "fst (retrievalBranch api env q opts qv intent s) = Inr r"
  shows "\<exists>ctx a c. r = Some \<lparr>matches = ctx, apiResults = a, answer = c\<rparr>"
proof -
  from assms show ?thesis
    unfolding retrievalBranch_def
    apply -
    apply (drule await_Inr, clarify)
    apply (simp split: option.splits add: throw_def)
    apply (drule await_Inr, clarify)
    apply (drule await_Inr, clarify)
    apply (drule await_Inr, clarify)
    apply (drule await_Inr, clarify)
    apply (drule await_Inr, clarify)
    apply (drule await_Inr, clarify)
    apply (simp split: sum.splits add: throw_def)
    apply (drule finish_result)
    apply blast
    done
qed

lemma process_result:
  assumes "fst (process api env q opts s) = Inr r"
  shows "\<exists>ctx a c. r = Some \<lparr>matches = ctx, apiResults = a, answer = c\<rparr>"
proof -
  from assms obtain qv s1 where
    "fst (await (analyzeUserIntent env q)
       (\<lambda>intent. case is_pure_greeting intent of
          Inl e \<Rightarrow> throw e
        | Inr True \<Rightarrow> greetingBranch env q
        | Inr False \<Rightarrow> retrievalBranch api env q opts qv intent) s1) = Inr r"
    unfolding process_def by (blast dest: await_Inr)
  then obtain intent s2 where
    *: "fst ((case is_pure_greeting intent of
          Inl e \<Rightarrow> throw e
        | Inr True \<Rightarrow> greetingBranch env q
        | Inr False \<Rightarrow> retrievalBranch api env q opts qv intent) s2) = Inr r"
    by (blast dest: await_Inr)
  show ?thesis
  proof (cases "is_pure_greeting intent")
    case (Inl e)
    then show ?thesis using * by (simp add: throw_def)
  next
    case (Inr b)
    then show ?thesis using * greetingBranch_result[of env q s2 r]
        retrievalBranch_result[of api env q opts qv intent s2 r]
      by (cases b) auto
  qed
qed

text \<open>
  Claim C5. The result is \<^verbatim>\<open>null\<close> exactly when the options carry a (non-empty)
  message id that the dedup cache holds, marked, with its time to live not yet over; and
  then the world is unchanged: no call was made, no cache written, no memory touched.
\<close>

theorem null_iff_duplicate:
  "(fst (queryEmbeddings env q opts s) = Inr None) =
     (\<exists>mid expiry. messageId opts = Some mid \<and> mid \<noteq> [] \<and>
        messageCache s mid = Some (True, expiry) \<and> now s \<le> expiry) \<and>
   (fst (queryEmbeddings env q opts s) = Inr None \<longrightarrow>
      snd (queryEmbeddings env q opts s) = s)"
proof -
  have d: "duplicate_message opts s =
     (\<exists>mid expiry. messageId opts = Some mid \<and> mid \<noteq> [] \<and>
        messageCache s mid = Some (True, expiry) \<and> now s \<le> expiry)"
    by (auto simp: duplicate_message_def cache_get_def split: option.splits if_splits)
  have p: "fst (process queryExternalAPI env q opts s) \<noteq> Inr None"
    using process_result[of queryExternalAPI env q opts s None] by auto
  have "(fst (queryEmbeddings env q opts s) = Inr None) = duplicate_message opts s"
    using p by (auto simp: queryEmbeddings_def queryEmbeddings_with_def split: option.splits)
  moreover have "duplicate_message opts s \<longrightarrow> snd (queryEmbeddings env q opts s) = s"
    by (simp add: queryEmbeddings_def queryEmbeddings_with_def)
  ultimately show ?thesis using d by simp
qed

lemma io_only_no_commit:
  "io_only P s s' \<Longrightarrow> (\<And>e. P e \<Longrightarrow> \<not> is_save e) \<Longrightarrow> no_commit s s'"
  by (auto simp: io_only_def no_commit_def histories_def list_all_iff)

lemma no_commit_refl: "no_commit s s"
  by (simp add: no_commit_def)

lemma no_commit_trans: "no_commit s s1 \<Longrightarrow> no_commit s1 s2 \<Longrightarrow> no_commit s s2"
  by (auto simp: no_commit_def)

lemma no_commit_getMemory: "getMemory env u s = (r, s') \<Longrightarrow> no_commit s s'"
  by (auto simp: getMemory_def no_commit_def histories_def split: option.splits if_splits)

lemma no_commit_loadMemoryVariables: "loadMemoryVariables env u s = (r, s') \<Longrightarrow> no_commit s s'"
  by (auto simp: loadMemoryVariables_def no_commit_def histories_def split: option.splits)

lemma no_commit_chat:
  "retry_default (invoke (ChatCompletion req) f) s = (r, s') \<Longrightarrow> no_commit s s'"
  by (rule io_only_no_commit[where P = "\<lambda>ev. \<not> is_save ev"], rule io_only_chat) auto

lemma no_commit_greetingBranch: "greetingBranch env q s = (r, s') \<Longrightarrow> no_commit s s'"
  by (rule io_only_no_commit[where P = "\<lambda>ev. \<not> is_save ev"], rule io_only_greetingBranch) auto

lemma no_commit_queryExternalAPI: "queryExternalAPI name s = (r, s') \<Longrightarrow> no_commit s s'"
  by (rule io_only_no_commit[where P = "\<lambda>ev. \<not> is_save ev"], rule io_only_queryExternalAPI) auto

lemma await_succeeds:
  assumes "await m k s = (Inr r, s')"
  obtains v s1 where "m s = (Inr v, s1)" "k v s1 = (Inr r, s')"
  using assms by (auto simp: await_def split: prod.splits sum.splits)

lemma await_return: "await (return v) k s = k v s"
  by (simp add: await_def return_def)

lemma finish_succeeds:
  assumes "finish env q opts mem ctx api c s = (Inr r, s')"
  shows "r = Some \<lparr>matches = ctx, apiResults = api, answer = c\<rparr> \<and>
         cache s' (cacheKey q opts) =
           Some (\<lparr>matches = ctx, apiResults = api, answer = c\<rparr>, now s' + cacheTTL) \<and>
         (\<forall>mid. messageId opts = Some mid \<and> mid \<noteq> [] \<longrightarrow>
            messageCache s' mid = Some (True, now s' + messageCacheTTL)) \<and>
         trace s' = trace s @ [SaveContext mem q c]"
  using assms
  by (auto simp: finish_def await_def return_def saveContext_def messageCache_set_def
      result_cache_set_def cache_set_def split: option.splits if_splits sum.splits)

text \<open>What a successful run of the retrieval branch leaves behind.\<close>

lemma no_commit_queryExternalAPI_all:
  "\<forall>name s r s'. queryExternalAPI name s = (r, s') \<longrightarrow> no_commit s s'"
  using no_commit_queryExternalAPI by blast

lemma retrievalBranch_succeeds:
  assumes "retrievalBranch api env q opts qv intent s = (Inr r, s')"
    and api: "\<forall>name s r s'. api name s = (r, s') \<longrightarrow> no_commit s s'"
  shows "\<exists>ctx a c s6 s7 cs req.
           r = Some \<lparr>matches = ctx, apiResults = a, answer = c\<rparr> \<and>
           cache s' (cacheKey q opts) =
             Some (\<lparr>matches = ctx, apiResults = a, answer = c\<rparr>, now s' + cacheTTL) \<and>
           (\<forall>mid. messageId opts = Some mid \<and> mid \<noteq> [] \<longrightarrow>
              messageCache s' mid = Some (True, now s' + messageCacheTTL)) \<and>
           (enableAPIQuery opts = Some True \<longrightarrow> (\<exists>s3 s4. api ''mockAPI'' s3 = (Inr a, s4))) \<and>
           (enableAPIQuery opts \<noteq> Some True \<longrightarrow> a = []) \<and>
           no_commit s s6 \<and>
           retry_default (invoke (ChatCompletion req) (openai_chat env req)) s6 = (Inr (Some (c # cs)), s7) \<and>
           trace s' = trace s7 @ [SaveContext (userId opts) q c]"
proof -
  from assms(1) obtain v s1 where
    1: "queryVectorStore env ''mongodb'' qv (topK opts) s = (Inr v, s1)"
    and k1: "(case v of None \<Rightarrow> throw (JsError ''TypeError'') | Some ms \<Rightarrow>
     await (return (weightContextRelevance env q
              (map (\<lambda>m. \<lparr>rm_text = metadata_text m, rm_language = metadata_language m,
                          rm_score = score m\<rparr>) ms)))
       (\<lambda>contexts.
     await (if enableAPIQuery opts = Some True then api ''mockAPI'' else return [])
       (\<lambda>apiResults.
     await (getMemory env (userId opts))
       (\<lambda>memory.
     await (loadMemoryVariables env memory)
       (\<lambda>chatHistory.
     await (invoke (SummarizeChatHistory chatHistory) (summarizeChatHistory env chatHistory))
       (\<lambda>historySummary.
     await (retry_default
              (invoke (ChatCompletion
                 \<lparr>model = ''gpt-4'', system_content = SYSTEM_PROMPT env,
                  user_content = prompt_content env q intent historySummary contexts,
                  temperature = None, max_tokens = 500\<rparr>)
               (openai_chat env
                 \<lparr>model = ''gpt-4'', system_content = SYSTEM_PROMPT env,
                  user_content = prompt_content env q intent historySummary contexts,
                  temperature = None, max_tokens = 500\<rparr>)))
       (\<lambda>completion. case first_content completion of
          Inl e \<Rightarrow> throw e
        | Inr content \<Rightarrow> finish env q opts memory contexts apiResults content))))))) s1 = (Inr r, s')"
    unfolding retrievalBranch_def by (rule await_succeeds)
  have n1: "no_commit s s1"
    by (rule io_only_no_commit[where P = "\<lambda>ev. \<not> is_save ev", OF io_only_queryVectorStore_mongodb[OF 1]]) auto
  from k1 obtain ms where v: "v = Some ms" by (cases v) (auto simp: throw_def)
  define ctx where "ctx = weightContextRelevance env q
              (map (\<lambda>m. \<lparr>rm_text = metadata_text m, rm_language = metadata_language m,
                          rm_score = score m\<rparr>) ms)"
  from k1 have k2: "await (if enableAPIQuery opts = Some True then api ''mockAPI'' else return [])
       (\<lambda>apiResults.
     await (getMemory env (userId opts))
       (\<lambda>memory.
     await (loadMemoryVariables env memory)
       (\<lambda>chatHistory.
     await (invoke (SummarizeChatHistory chatHistory) (summarizeChatHistory env chatHistory))
       (\<lambda>historySummary.
     await (retry_default
              (invoke (ChatCompletion
                 \<lparr>model = ''gpt-4'', system_content = SYSTEM_PROMPT env,
                  user_content = prompt_content env q intent historySummary ctx,
                  temperature = None, max_tokens = 500\<rparr>)
               (openai_chat env
                 \<lparr>model = ''gpt-4'', system_content = SYSTEM_PROMPT env,
                  user_content = prompt_content env q intent historySummary ctx,
                  temperature = None, max_tokens = 500\<rparr>)))
       (\<lambda>completion. case first_content completion of
          Inl e \<Rightarrow> throw e
        | Inr content \<Rightarrow> finish env q opts memory ctx apiResults content))))) s1 = (Inr r, s')"
    unfolding v ctx_def by (simp only: option.case await_return)
  from k2 obtain a s2 where
    2: "(if enableAPIQuery opts = Some True then api ''mockAPI'' else return []) s1 = (Inr a, s2)"
    and k3: "await (getMemory env (userId opts))
       (\<lambda>memory.
     await (loadMemoryVariables env memory)
       (\<lambda>chatHistory.
     await (invoke (SummarizeChatHistory chatHistory) (summarizeChatHistory env chatHistory))
       (\<lambda>historySummary.
     await (retry_default
              (invoke (ChatCompletion
                 \<lparr>model = ''gpt-4'', system_content = SYSTEM_PROMPT env,
                  user_content = prompt_content env q intent historySummary ctx,
                  temperature = None, max_tokens = 500\<rparr>)
               (openai_chat env
                 \<lparr>model = ''gpt-4'', system_content = SYSTEM_PROMPT env,
                  user_content = prompt_content env q intent historySummary ctx,
                  temperature = None, max_tokens = 500\<rparr>)))
       (\<lambda>completion. case first_content completion of
          Inl e \<Rightarrow> throw e
        | Inr content \<Rightarrow> finish env q opts memory ctx a content)))) s2 = (Inr r, s')"
    by (rule await_succeeds)
  have n2: "no_commit s1 s2"
    using 2 api by (auto split: if_splits simp: return_def no_commit_refl)
  have a1: "enableAPIQuery opts = Some True \<longrightarrow> (\<exists>s3 s4. api ''mockAPI'' s3 = (Inr a, s4))"
    using 2 by (auto split: if_splits intro: exI)
  have a2: "enableAPIQuery opts \<noteq> Some True \<longrightarrow> a = []"
    using 2 by (auto simp: return_def)
  from k3 obtain mem s3 where
    3: "getMemory env (userId opts) s2 = (Inr mem, s3)"
    and k4: "await (loadMemoryVariables env mem)
       (\<lambda>chatHistory.
     await (invoke (SummarizeChatHistory chatHistory) (summarizeChatHistory env chatHistory))
       (\<lambda>historySummary.
     await (retry_default
              (invoke (ChatCompletion
                 \<lparr>model = ''gpt-4'', system_content = SYSTEM_PROMPT env,
                  user_content = prompt_content env q intent historySummary ctx,
                  temperature = None, max_tokens = 500\<rparr>)
               (openai_chat env
                 \<lparr>model = ''gpt-4'', system_content = SYSTEM_PROMPT env,
                  user_content = prompt_content env q intent historySummary ctx,
                  temperature = None, max_tokens = 500\<rparr>)))
       (\<lambda>completion. case first_content completion of
          Inl e \<Rightarrow> throw e
        | Inr content \<Rightarrow> finish env q opts mem ctx a content))) s3 = (Inr r, s')"
    by (rule await_succeeds)
  have mem: "mem = userId opts" using 3 by (auto simp: getMemory_def split: option.splits)
  have n3: "no_commit s2 s3" using 3 by (rule no_commit_getMemory)
  from k4 obtain hist s4 where
    4: "loadMemoryVariables env mem s3 = (Inr hist, s4)"
    and k5: "await (invoke (SummarizeChatHistory hist) (summarizeChatHistory env hist))
       (\<lambda>historySummary.
     await (retry_default
              (invoke (ChatCompletion
                 \<lparr>model = ''gpt-4'', system_content = SYSTEM_PROMPT env,
                  user_content = prompt_content env q intent historySummary ctx,
                  temperature = None, max_tokens = 500\<rparr>)
               (openai_chat env
                 \<lparr>model = ''gpt-4'', system_content = SYSTEM_PROMPT env,
                  user_content = prompt_content env q intent historySummary ctx,
                  temperature = None, max_tokens = 500\<rparr>)))
       (\<lambda>completion. case first_content completion of
          Inl e \<Rightarrow> throw e
        | Inr content \<Rightarrow> finish env q opts mem ctx a content)) s4 = (Inr r, s')"
    by (rule await_succeeds)
  have n4: "no_commit s3 s4" using 4 by (rule no_commit_loadMemoryVariables)
  from k5 obtain summ s5 where
    5: "invoke (SummarizeChatHistory hist) (summarizeChatHistory env hist) s4 = (Inr summ, s5)"
    and k6: "await (retry_default
              (invoke (ChatCompletion
                 \<lparr>model = ''gpt-4'', system_content = SYSTEM_PROMPT env,
                  user_content = prompt_content env q intent summ ctx,
                  temperature = None, max_tokens = 500\<rparr>)
               (openai_chat env
                 \<lparr>model = ''gpt-4'', system_content = SYSTEM_PROMPT env,
                  user_content = prompt_content env q intent summ ctx,
                  temperature = None, max_tokens = 500\<rparr>)))
       (\<lambda>completion. case first_content completion of
          Inl e \<Rightarrow> throw e
        | Inr content \<Rightarrow> finish env q opts mem ctx a content) s5 = (Inr r, s')"
    by (rule await_succeeds)
  have n5: "no_commit s4 s5"
    by (rule io_only_no_commit[where P = "\<lambda>ev. \<not> is_save ev", OF io_only_invoke[OF 5]]) auto
  define req where "req = \<lparr>model = ''gpt-4'', system_content = SYSTEM_PROMPT env,
                  user_content = prompt_content env q intent summ ctx,
                  temperature = None, max_tokens = 500\<rparr>"
  from k6 obtain completion s6 where
    6: "retry_default (invoke (ChatCompletion req) (openai_chat env req)) s5 = (Inr completion, s6)"
    and k7: "(case first_content completion of
          Inl e \<Rightarrow> throw e
        | Inr content \<Rightarrow> finish env q opts mem ctx a content) s6 = (Inr r, s')"
    unfolding req_def by (rule await_succeeds)
  from k7 obtain c where c: "first_content completion = Inr c"
    and f: "finish env q opts mem ctx a c s6 = (Inr r, s')"
    by (cases "first_content completion") (auto simp: throw_def)
  from c obtain cs where cs: "completion = Some (c # cs)"
    by (auto simp: first_content_def split: option.splits list.splits)
  have ns: "no_commit s s5" using n1 n2 n3 n4 n5 by (blast intro: no_commit_trans)
  show ?thesis
    using finish_succeeds[OF f] a1 a2 ns 6 cs mem by blast
qed

lemma retry_default_invoke_success:
  assumes "retry_default (invoke ev f) s = (Inr (Some v), s')"
  shows "\<exists>h. f h = Inr v \<and> prefix (trace s) h \<and> trace s' = h @ [ev]"
proof -
  from assms have "retry_loop (invoke ev f) 3 0 s = (Inr (Some v), s')"
    by (simp add: retry_default_def retry_def)
  from retry_loop_invoke_success[OF this]
  have "f (butlast (trace s')) = Inr v \<and> prefix (trace s) (butlast (trace s')) \<and>
        trace s' = butlast (trace s') @ [ev]"
    by (metis append_butlast_last_id)
  then show ?thesis by blast
qed

lemma no_commit_prefix: "no_commit s s' \<Longrightarrow> prefix (trace s) (trace s')"
  by (auto simp: no_commit_def)

lemma queryEmbeddings_retrieval:
  assumes "\<not> duplicate_message opts s"
    and "cache_get (cache s) (cacheKey q opts) (now s) = None"
    and "retry_default (invoke (EmbedQuery q) (embeddings_embedQuery env q)) s = (Inr qv, s1)"
    and "analyzeUserIntent env q s1 = (Inr intent, s2)"
    and "is_pure_greeting intent = Inr False"
  shows "queryEmbeddings_with api env q opts s = retrievalBranch api env q opts qv intent s2"
  using assms by (simp add: queryEmbeddings_with_def process_def await_def)

text \<open>
  The retrieval branch stores what it returns. A turn that is not suppressed, misses the
  cache, and takes the retrieval branch to its end stores its response under the cache
  key. A second call with the same query and options within the time to live of the cache
  changes nothing in the world (no call is made): it returns \<^verbatim>\<open>null\<close> when the options
  carry a message id and the dedup entry is still alive, and the stored response
  otherwise.
\<close>

lemma retrieval_turn_is_cached:
  assumes "\<not> duplicate_message opts s"
    and "cache_get (cache s) (cacheKey q opts) (now s) = None"
    and "retry_default (invoke (EmbedQuery q) (embeddings_embedQuery env q)) s = (Inr qv, s1)"
    and "analyzeUserIntent env q s1 = (Inr intent, s2)"
    and "is_pure_greeting intent = Inr False"
    and "queryEmbeddings env q opts s = (Inr (Some r), s')"
    and "d \<le> cacheTTL"
  shows "cache_get (cache s') (cacheKey q opts) (now s') = Some r \<and>
         queryEmbeddings env' q opts (advance d s') =
           (if has_messageId opts \<and> d \<le> messageCacheTTL then Inr None else Inr (Some r),
            advance d s')"
proof -
  have "retrievalBranch queryExternalAPI env q opts qv intent s2 = (Inr (Some r), s')"
    using queryEmbeddings_retrieval[OF assms(1-5), of queryExternalAPI] assms(6)
    by (simp add: queryEmbeddings_def)
  from retrievalBranch_succeeds[OF this no_commit_queryExternalAPI_all]
  have c: "cache s' (cacheKey q opts) = Some (r, now s' + cacheTTL)"
    and m: "\<forall>mid. messageId opts = Some mid \<and> mid \<noteq> [] \<longrightarrow>
              messageCache s' mid = Some (True, now s' + messageCacheTTL)"
    by auto
  have dup: "duplicate_message opts (advance d s') = (has_messageId opts \<and> d \<le> messageCacheTTL)"
    using m by (auto simp: duplicate_message_def has_messageId_def advance_def cache_get_def
        split: option.splits)
  have hit: "cache_get (cache (advance d s')) (cacheKey q opts) (now (advance d s')) = Some r"
    using c assms(7) by (simp add: cache_get_def advance_def)
  show ?thesis
    using c dup hit by (simp add: queryEmbeddings_def queryEmbeddings_with_def cache_get_def)
qed

text \<open>
  Claim C9, as amended. The answer of a response produced by a turn (greeting or
  retrieval) is the content of the first choice of a completion that the chat service
  gave during this turn; nothing checks that it is non-empty.
\<close>

theorem answer_is_first_choice:
  assumes "\<not> duplicate_message opts s"
    and "cache_get (cache s) (cacheKey q opts) (now s) = None"
    and "queryEmbeddings env q opts s = (Inr (Some r), s')"
  shows "\<exists>req h cs. openai_chat env req h = Inr (answer r # cs) \<and> prefix (trace s) h \<and>
           prefix (h @ [ChatCompletion req]) (trace s')"
proof -
  have p: "process queryExternalAPI env q opts s = (Inr (Some r), s')"
    using assms by (simp add: queryEmbeddings_def queryEmbeddings_with_def)
  from p obtain qv s1 where
    1: "retry_default (invoke (EmbedQuery q) (embeddings_embedQuery env q)) s = (Inr qv, s1)"
    and k1: "await (analyzeUserIntent env q)
       (\<lambda>intent. case is_pure_greeting intent of
          Inl e \<Rightarrow> throw e
        | Inr True \<Rightarrow> greetingBranch env q
        | Inr False \<Rightarrow> retrievalBranch queryExternalAPI env q opts qv intent) s1 = (Inr (Some r), s')"
    unfolding process_def by (rule await_succeeds)
  from k1 obtain intent s2 where
    2: "analyzeUserIntent env q s1 = (Inr intent, s2)"
    and k2: "(case is_pure_greeting intent of
          Inl e \<Rightarrow> throw e
        | Inr True \<Rightarrow> greetingBranch env q
        | Inr False \<Rightarrow> retrievalBranch queryExternalAPI env q opts qv intent) s2 = (Inr (Some r), s')"
    by (rule await_succeeds)
  have "no_commit s s1"
    by (rule io_only_no_commit[where P = "\<lambda>ev. \<not> is_save ev", OF io_only_embed[OF 1]]) auto
  moreover have "no_commit s1 s2"
    by (rule io_only_no_commit[where P = "\<lambda>ev. \<not> is_save ev", OF io_only_analyzeUserIntent[OF 2]]) auto
  ultimately have p2: "prefix (trace s) (trace s2)"
    by (blast intro: no_commit_trans no_commit_prefix)
  from k2 obtain b where b: "is_pure_greeting intent = Inr b"
    by (cases "is_pure_greeting intent") (auto simp: throw_def)
  show ?thesis
  proof (cases b)
    case True
    with b k2 have "greetingBranch env q s2 = (Inr (Some r), s')" by simp
    then obtain req completion s3 where
      g: "retry_default (invoke (ChatCompletion req) (openai_chat env req)) s2 = (Inr completion, s3)"
      and k3: "(case first_content completion of
            Inl e \<Rightarrow> throw e
          | Inr content \<Rightarrow> return (Some \<lparr>matches = [], apiResults = [], answer = content\<rparr>)) s3
          = (Inr (Some r), s')"
      unfolding greetingBranch_def by (blast elim: await_succeeds)
    from k3 obtain c where c: "first_content completion = Inr c" and r: "answer r = c" and s: "s' = s3"
      by (cases "first_content completion") (auto simp: throw_def return_def)
    from c obtain cs where "completion = Some (c # cs)"
      by (auto simp: first_content_def split: option.splits list.splits)
    with g have "retry_default (invoke (ChatCompletion req) (openai_chat env req)) s2 =
        (Inr (Some (c # cs)), s3)" by simp
    from retry_default_invoke_success[OF this] obtain h where
      "openai_chat env req h = Inr (c # cs)" "prefix (trace s2) h" "trace s3 = h @ [ChatCompletion req]"
      by blast
    then show ?thesis using r s p2 by (metis prefix_order.trans prefix_order.refl)
  next
    case False
    with b k2 have "retrievalBranch queryExternalAPI env q opts qv intent s2 = (Inr (Some r), s')" by simp
    from retrievalBranch_succeeds[OF this no_commit_queryExternalAPI_all]
    obtain ctx a c s6 s7 cs req where
      r: "Some r = Some \<lparr>matches = ctx, apiResults = a, answer = c\<rparr>"
      and n: "no_commit s2 s6"
      and g: "retry_default (invoke (ChatCompletion req) (openai_chat env req)) s6 = (Inr (Some (c # cs)), s7)"
      and t: "trace s' = trace s7 @ [SaveContext (userId opts) q c]"
      by blast
    from retry_default_invoke_success[OF g] obtain h where
      h: "openai_chat env req h = Inr (c # cs)" "prefix (trace s6) h" "trace s7 = h @ [ChatCompletion req]"
      by blast
    have "prefix (trace s) h" using p2 no_commit_prefix[OF n] h(2) by (meson prefix_order.trans)
    moreover have "prefix (h @ [ChatCompletion req]) (trace s')" using t h(3) by simp
    moreover have "answer r = c" using r by simp
    ultimately show ?thesis using h(1) by blast
  qed
qed

text \<open>
  Claim C2, as amended. On the retrieval branch with \<open>enableAPIQuery\<close> set: an
  enrichment call that is rejected ends the turn with that rejection, in the world the
  call left (nothing generated, nothing cached); the enrichment of this module,
  \<open>queryExternalAPI\<close>, is never rejected and answers with the fixed mock list, which is
  the \<open>apiResults\<close> of the response the turn returns and caches.
\<close>

theorem enrichment_rejection_propagates:
  assumes "\<not> duplicate_message opts s"
    and "cache_get (cache s) (cacheKey q opts) (now s) = None"
    and "retry_default (invoke (EmbedQuery q) (embeddings_embedQuery env q)) s = (Inr qv, s1)"
    and "analyzeUserIntent env q s1 = (Inr intent, s2)"
    and "is_pure_greeting intent = Inr False"
    and "queryVectorStore env ''mongodb'' qv (topK opts) s2 = (Inr (Some ms), s3)"
    and "enableAPIQuery opts = Some True"
  shows "(\<forall>e s4. api ''mockAPI'' s3 = (Inl e, s4) \<longrightarrow>
            queryEmbeddings_with api env q opts s = (Inl e, s4)) \<and>
         queryExternalAPI ''mockAPI'' s3 =
            (Inr [JObj [(''data'', JStr ''Mock API response'')]],
             s3\<lparr>trace := trace s3 @ [ExternalAPI ''mockAPI'']\<rparr>) \<and>
         (\<forall>r s'. queryEmbeddings env q opts s = (Inr (Some r), s') \<longrightarrow>
            apiResults r = [JObj [(''data'', JStr ''Mock API response'')]] \<and>
            cache_get (cache s') (cacheKey q opts) (now s') = Some r)"
proof (intro conjI allI impI)
  fix e s4 assume "api ''mockAPI'' s3 = (Inl e, s4)"
  then show "queryEmbeddings_with api env q opts s = (Inl e, s4)"
    unfolding queryEmbeddings_retrieval[OF assms(1-5)] retrievalBranch_def
    by (simp add: await_def return_def assms(6,7))
next
  show "queryExternalAPI ''mockAPI'' s3 =
            (Inr [JObj [(''data'', JStr ''Mock API response'')]],
             s3\<lparr>trace := trace s3 @ [ExternalAPI ''mockAPI'']\<rparr>)"
    by (simp add: queryExternalAPI_def)
next
  fix r s' assume "queryEmbeddings env q opts s = (Inr (Some r), s')"
  then have "retrievalBranch queryExternalAPI env q opts qv intent s2 = (Inr (Some r), s')"
    using queryEmbeddings_retrieval[OF assms(1-5), of queryExternalAPI]
    by (simp add: queryEmbeddings_def)
  from retrievalBranch_succeeds[OF this no_commit_queryExternalAPI_all] assms(7)
  show "apiResults r = [JObj [(''data'', JStr ''Mock API response'')]]"
    by (auto simp: queryExternalAPI_def)
next
  fix r s' assume "queryEmbeddings env q opts s = (Inr (Some r), s')"
  then have "retrievalBranch queryExternalAPI env q opts qv intent s2 = (Inr (Some r), s')"
    using queryEmbeddings_retrieval[OF assms(1-5), of queryExternalAPI]
    by (simp add: queryEmbeddings_def)
  from retrievalBranch_succeeds[OF this no_commit_queryExternalAPI_all]
  show "cache_get (cache s') (cacheKey q opts) (now s') = Some r"
    by (auto simp: cache_get_def)
qed

subsection \<open>A stage that fails\<close>


















text \<open>What the stages above leave out is the store itself. The save, the dedup mark and
  the cache write come in this order after the generation, and a result cache that is
  full refuses the write by throwing: that turn fails after its save and its dedup
  mark.\<close>

lemma full_cache_fails_after_save:
  assumes "memory_fault env (trace s) = None"
    and "messageId opts = Some mid" and "mid \<noteq> []"
    and "card (dom (messageCache s)) < messageCacheMaxKeys"
    and "cacheMaxKeys \<le> card (dom (cache s))"
  shows "finish env q opts u contexts api content s =
     (Inl (JsError ''ECACHEFULL''),
      s\<lparr>trace := trace s @ [SaveContext u q content],
        memories := (memories s)(u \<mapsto>
          (case memories s u of None \<Rightarrow> [] | Some h \<Rightarrow> h) @ [(q, content)]),
        messageCache := (messageCache s)(mid \<mapsto> (True, now s + messageCacheTTL))\<rparr>)"
  using assms
  by (simp add: finish_def await_def saveContext_def messageCache_set_def result_cache_set_def
      cache_set_def return_def)

subsection \<open>Concrete runs\<close>

text \<open>The equations that run the functions on concrete inputs.\<close>

lemmas run_defs = queryEmbeddings_def queryEmbeddings_with_def process_def retrievalBranch_def
  greetingBranch_def finish_def await_def return_def throw_def invoke_def sleep_def advance_def
  retry_default_def retry_def retry_loop_unfold analyzeUserIntent_def is_pure_greeting_def
  first_content_def queryVectorStore_mongodb getMemory_def loadMemoryVariables_def
  saveContext_def queryExternalAPI_def failing_api_def duplicate_message_def has_messageId_def
  cache_get_def cache_set_def messageCache_set_def result_cache_set_def cacheMaxKeys_def
  messageCacheMaxKeys_def new_events_def topK_or_5_def or_5_def topResults_def
  filter_index_le_def sort_by_score_desc_def slice0_def reshape_def enumerate_eq_zip upt_rec
  world0_def env0_def docs0_def no_options_def support_intent_def greeting_intent_def
  env_greeting_def env_overloaded_def env_silent_def response0_def options_m1_def
  options_api_def world_seen_m1_def cacheTTL_def messageCacheTTL_def

theorem greeting_branch_purity_witness:
  "\<not> duplicate_message no_options world0 \<and>
   cache_get (cache world0) (cacheKey ''hello'' no_options) (now world0) = None \<and>
   retry_default (invoke (EmbedQuery ''hello'') (embeddings_embedQuery env_greeting ''hello'')) world0 =
     (Inr (Some [1, 0]), world0\<lparr>trace := [EmbedQuery ''hello'']\<rparr>) \<and>
   analyzeUserIntent env_greeting ''hello'' (world0\<lparr>trace := [EmbedQuery ''hello'']\<rparr>) =
     (Inr greeting_intent, world0\<lparr>trace := [EmbedQuery ''hello'', ClassifyIntent ''hello'']\<rparr>) \<and>
   is_pure_greeting greeting_intent = Inr True \<and>
   fst (queryEmbeddings env_greeting ''hello'' no_options world0) =
     Inr (Some \<lparr>matches = [], apiResults = [], answer = Some ''Hello! How can I help?''\<rparr>) \<and>
   length (new_events world0 (snd (queryEmbeddings env_greeting ''hello'' no_options world0))) = 3"
proof -
  have h1: "\<not> duplicate_message no_options world0" by (simp add: run_defs)
  have h2: "cache_get (cache world0) (cacheKey ''hello'' no_options) (now world0) = None"
    by (simp add: run_defs)
  have h3: "retry_default (invoke (EmbedQuery ''hello'') (embeddings_embedQuery env_greeting ''hello'')) world0 =
     (Inr (Some [1, 0]), world0\<lparr>trace := [EmbedQuery ''hello'']\<rparr>)"
    by (simp add: run_defs)
  have h4: "analyzeUserIntent env_greeting ''hello'' (world0\<lparr>trace := [EmbedQuery ''hello'']\<rparr>) =
     (Inr greeting_intent, world0\<lparr>trace := [EmbedQuery ''hello'', ClassifyIntent ''hello'']\<rparr>)"
    by (simp add: run_defs)
  have h5: "is_pure_greeting greeting_intent = Inr True" by (simp add: run_defs)
  from greeting_branch_purity[OF h1 h2 h3 h4 h5]
  have "queryEmbeddings env_greeting ''hello'' no_options world0 =
     greetingBranch env_greeting ''hello'' (world0\<lparr>trace := [EmbedQuery ''hello'', ClassifyIntent ''hello'']\<rparr>)"
    by blast
  then have "fst (queryEmbeddings env_greeting ''hello'' no_options world0) =
     Inr (Some \<lparr>matches = [], apiResults = [], answer = Some ''Hello! How can I help?''\<rparr>) \<and>
   length (new_events world0 (snd (queryEmbeddings env_greeting ''hello'' no_options world0))) = 3"
    by (simp add: run_defs)
  with h1 h2 h3 h4 h5 show ?thesis by blast
qed

theorem null_iff_duplicate_witness:
  "messageId options_m1 = Some ''m1'' \<and> ''m1'' \<noteq> [] \<and>
   messageCache world_seen_m1 ''m1'' = Some (True, 300000) \<and> now world_seen_m1 \<le> 300000 \<and>
   fst (queryEmbeddings env0 ''pay'' options_m1 world_seen_m1) = Inr None \<and>
   snd (queryEmbeddings env0 ''pay'' options_m1 world_seen_m1) = world_seen_m1 \<and>
   fst (queryEmbeddings env0 ''pay'' options_m1 world0) \<noteq> Inr None"
proof -
  have a: "messageId options_m1 = Some ''m1'' \<and> ''m1'' \<noteq> [] \<and>
   messageCache world_seen_m1 ''m1'' = Some (True, 300000) \<and> now world_seen_m1 \<le> 300000"
    by (simp add: run_defs)
  have b: "\<not> (\<exists>mid expiry. messageId options_m1 = Some mid \<and> mid \<noteq> [] \<and>
        messageCache world0 mid = Some (True, expiry) \<and> now world0 \<le> expiry)"
    by (simp add: run_defs)
  show ?thesis
    using null_iff_duplicate[of env0 "''pay''" options_m1 world_seen_m1]
      null_iff_duplicate[of env0 "''pay''" options_m1 world0] a b
    by blast
qed


lemma run0: "fst (queryEmbeddings env0 ''pay'' no_options world0) = Inr (Some response0)"
  by (simp add: run_defs)

text \<open>
  Claim C1, on the greeting branch. A greeting is answered and returned, but the turn
  ends at the \<^verbatim>\<open>return\<close> of line 256: the result cache is as empty after the turn as
  before it, so the identical call a minute later (well within the hour the cache keeps
  an entry) misses the cache and asks again for the embedding, the classification and
  the completion. The retrieval branch (lines 327 to 330) stores its response, and there
  the identical call a minute later makes no call at all.
\<close>

theorem greeting_turn_not_cached:
  "fst (queryEmbeddings env_greeting ''hello'' no_options world0) =
     Inr (Some \<lparr>matches = [], apiResults = [], answer = Some ''Hello! How can I help?''\<rparr>) \<and>
   cache (snd (queryEmbeddings env_greeting ''hello'' no_options world0)) = Map.empty \<and>
   cache_get (cache (snd (queryEmbeddings env_greeting ''hello'' no_options world0)))
     (cacheKey ''hello'' no_options)
     (now (snd (queryEmbeddings env_greeting ''hello'' no_options world0))) = None \<and>
   new_events (advance 60000 (snd (queryEmbeddings env_greeting ''hello'' no_options world0)))
     (snd (queryEmbeddings env_greeting ''hello'' no_options
        (advance 60000 (snd (queryEmbeddings env_greeting ''hello'' no_options world0))))) =
     [EmbedQuery ''hello'', ClassifyIntent ''hello'',
      ChatCompletion \<lparr>model = ''gpt-3.5-turbo'', system_content = SYSTEM_PROMPT env_greeting,
        user_content = greeting_content ''hello'', temperature = Some (7 / 10),
        max_tokens = 500\<rparr>] \<and>
   fst (queryEmbeddings env0 ''pay'' no_options world0) = Inr (Some response0) \<and>
   cache_get (cache (snd (queryEmbeddings env0 ''pay'' no_options world0)))
     (cacheKey ''pay'' no_options)
     (now (snd (queryEmbeddings env0 ''pay'' no_options world0))) = Some response0 \<and>
   new_events (advance 60000 (snd (queryEmbeddings env0 ''pay'' no_options world0)))
     (snd (queryEmbeddings env0 ''pay'' no_options
        (advance 60000 (snd (queryEmbeddings env0 ''pay'' no_options world0))))) = []"
  by (simp add: run_defs)

theorem answer_is_first_choice_witness:
  "\<not> duplicate_message no_options world0 \<and>
   cache_get (cache world0) (cacheKey ''pay'' no_options) (now world0) = None \<and>
   queryEmbeddings env0 ''pay'' no_options world0 =
     (Inr (Some response0), snd (queryEmbeddings env0 ''pay'' no_options world0)) \<and>
   (\<exists>req h cs. openai_chat env0 req h = Inr (answer response0 # cs) \<and> prefix (trace world0) h \<and>
      prefix (h @ [ChatCompletion req]) (trace (snd (queryEmbeddings env0 ''pay'' no_options world0))))"
proof -
  have h1: "\<not> duplicate_message no_options world0" by (simp add: run_defs)
  have h2: "cache_get (cache world0) (cacheKey ''pay'' no_options) (now world0) = None"
    by (simp add: run_defs)
  have "fst (queryEmbeddings env0 ''pay'' no_options world0) = Inr (Some response0)"
    by (simp add: run_defs)
  then have h3: "queryEmbeddings env0 ''pay'' no_options world0 =
     (Inr (Some response0), snd (queryEmbeddings env0 ''pay'' no_options world0))"
    by (simp add: prod_eq_iff)
  from answer_is_first_choice[OF h1 h2 h3] h1 h2 h3 show ?thesis by blast
qed

text \<open>The claim C9 as stated fails when the completion has empty content: the greeting
  branch returns a response whose answer is the empty string.\<close>

theorem answer_is_first_choice_counterexample:
  "fst (queryEmbeddings env_silent ''hello'' no_options world0) =
     Inr (Some \<lparr>matches = [], apiResults = [], answer = Some []\<rparr>)"
  by (simp add: run_defs)

theorem enrichment_rejection_propagates_witness:
  "\<not> duplicate_message options_api world0 \<and>
   cache_get (cache world0) (cacheKey ''pay'' options_api) (now world0) = None \<and>
   retry_default (invoke (EmbedQuery ''pay'') (embeddings_embedQuery env0 ''pay'')) world0 =
     (Inr (Some [1, 0]), world0\<lparr>trace := [EmbedQuery ''pay'']\<rparr>) \<and>
   analyzeUserIntent env0 ''pay'' (world0\<lparr>trace := [EmbedQuery ''pay'']\<rparr>) =
     (Inr support_intent, world0\<lparr>trace := [EmbedQuery ''pay'', ClassifyIntent ''pay'']\<rparr>) \<and>
   is_pure_greeting support_intent = Inr False \<and>
   queryVectorStore env0 ''mongodb'' (Some [1, 0]) (topK options_api)
       (world0\<lparr>trace := [EmbedQuery ''pay'', ClassifyIntent ''pay'']\<rparr>) =
     (Inr (Some (map reshape [docs0 ! 1, docs0 ! 2, docs0 ! 0])),
      world0\<lparr>trace := [EmbedQuery ''pay'', ClassifyIntent ''pay'',
         MongoAggregate ''docs'' ''vectorDocsIndex'' (Some [1, 0]) 5]\<rparr>) \<and>
   enableAPIQuery options_api = Some True \<and>
   failing_api ''mockAPI'' (world0\<lparr>trace := [EmbedQuery ''pay'', ClassifyIntent ''pay'',
         MongoAggregate ''docs'' ''vectorDocsIndex'' (Some [1, 0]) 5]\<rparr>) =
     (Inl (Rejected ''enrichment unavailable''),
      world0\<lparr>trace := [EmbedQuery ''pay'', ClassifyIntent ''pay'',
         MongoAggregate ''docs'' ''vectorDocsIndex'' (Some [1, 0]) 5, ExternalAPI ''mockAPI'']\<rparr>) \<and>
   queryEmbeddings_with failing_api env0 ''pay'' options_api world0 =
     (Inl (Rejected ''enrichment unavailable''),
      world0\<lparr>trace := [EmbedQuery ''pay'', ClassifyIntent ''pay'',
         MongoAggregate ''docs'' ''vectorDocsIndex'' (Some [1, 0]) 5, ExternalAPI ''mockAPI'']\<rparr>) \<and>
   queryEmbeddings env0 ''pay'' options_api world0 =
     (Inr (Some (response0\<lparr>apiResults := [JObj [(''data'', JStr ''Mock API response'')]]\<rparr>)),
      snd (queryEmbeddings env0 ''pay'' options_api world0)) \<and>
   apiResults (response0\<lparr>apiResults := [JObj [(''data'', JStr ''Mock API response'')]]\<rparr>) =
     [JObj [(''data'', JStr ''Mock API response'')]]"
proof -
  let ?s3 = "world0\<lparr>trace := [EmbedQuery ''pay'', ClassifyIntent ''pay'',
         MongoAggregate ''docs'' ''vectorDocsIndex'' (Some [1, 0]) 5]\<rparr>"
  have h1: "\<not> duplicate_message options_api world0" by (simp add: run_defs)
  have h2: "cache_get (cache world0) (cacheKey ''pay'' options_api) (now world0) = None"
    by (simp add: run_defs)
  have h3: "retry_default (invoke (EmbedQuery ''pay'') (embeddings_embedQuery env0 ''pay'')) world0 =
     (Inr (Some [1, 0]), world0\<lparr>trace := [EmbedQuery ''pay'']\<rparr>)"
    by (simp add: run_defs)
  have h4: "analyzeUserIntent env0 ''pay'' (world0\<lparr>trace := [EmbedQuery ''pay'']\<rparr>) =
     (Inr support_intent, world0\<lparr>trace := [EmbedQuery ''pay'', ClassifyIntent ''pay'']\<rparr>)"
    by (simp add: run_defs)
  have h5: "is_pure_greeting support_intent = Inr False" by (simp add: run_defs)
  have h6: "queryVectorStore env0 ''mongodb'' (Some [1, 0]) (topK options_api)
       (world0\<lparr>trace := [EmbedQuery ''pay'', ClassifyIntent ''pay'']\<rparr>) =
     (Inr (Some (map reshape [docs0 ! 1, docs0 ! 2, docs0 ! 0])), ?s3)"
    by (simp add: run_defs)
  have h7: "enableAPIQuery options_api = Some True" by (simp add: run_defs)
  have f: "failing_api ''mockAPI'' ?s3 =
     (Inl (Rejected ''enrichment unavailable''),
      world0\<lparr>trace := [EmbedQuery ''pay'', ClassifyIntent ''pay'',
         MongoAggregate ''docs'' ''vectorDocsIndex'' (Some [1, 0]) 5, ExternalAPI ''mockAPI'']\<rparr>)"
    by (simp add: run_defs)
  have "fst (queryEmbeddings env0 ''pay'' options_api world0) =
     Inr (Some (response0\<lparr>apiResults := [JObj [(''data'', JStr ''Mock API response'')]]\<rparr>))"
    by (simp add: run_defs)
  then have g: "queryEmbeddings env0 ''pay'' options_api world0 =
     (Inr (Some (response0\<lparr>apiResults := [JObj [(''data'', JStr ''Mock API response'')]]\<rparr>)),
      snd (queryEmbeddings env0 ''pay'' options_api world0))"
    by (simp add: prod_eq_iff)
  from enrichment_rejection_propagates[OF h1 h2 h3 h4 h5 h6 h7, of failing_api] f g
  have "queryEmbeddings_with failing_api env0 ''pay'' options_api world0 =
     (Inl (Rejected ''enrichment unavailable''),
      world0\<lparr>trace := [EmbedQuery ''pay'', ClassifyIntent ''pay'',
         MongoAggregate ''docs'' ''vectorDocsIndex'' (Some [1, 0]) 5, ExternalAPI ''mockAPI'']\<rparr>) \<and>
     apiResults (response0\<lparr>apiResults := [JObj [(''data'', JStr ''Mock API response'')]]\<rparr>) =
     [JObj [(''data'', JStr ''Mock API response'')]]"
    by blast
  with h1 h2 h3 h4 h5 h6 h7 f g show ?thesis by blast
qed

text \<open>The claim C2 as stated fails for an enrichment call that is rejected: the turn ends
  with the rejection, nothing is cached under its key and no completion was requested.\<close>

theorem enrichment_rejection_propagates_counterexample:
  "fst (queryEmbeddings_with failing_api env0 ''pay'' options_api world0) =
     Inl (Rejected ''enrichment unavailable'') \<and>
   cache (snd (queryEmbeddings_with failing_api env0 ''pay'' options_api world0))
     (cacheKey ''pay'' options_api) = None \<and>
   list_all (\<lambda>ev. case ev of ChatCompletion r \<Rightarrow> False | _ \<Rightarrow> True)
     (new_events world0 (snd (queryEmbeddings_with failing_api env0 ''pay'' options_api world0)))"
  by (simp add: run_defs)

subsection \<open>The cache key\<close>

lemma scan_append:
  "scan f st (p @ r) = (case scan f st p of None \<Rightarrow> None | Some st1 \<Rightarrow> scan f st1 r)"
  by (induction p arbitrary: st) (auto split: option.splits)

lemma scan_plain_Outside:
  "\<forall>c \<in> set t. \<not> structural c \<Longrightarrow> scan f (Outside, d) t = Some (Outside, d)"
  by (induction t) (auto simp: structural_def)

lemma scan_plain_Inside:
  "\<forall>c \<in> set t. c \<noteq> CHR 0x22 \<and> c \<noteq> CHR 0x5C \<Longrightarrow> scan f (Inside, d) t = Some (Inside, d)"
  by (induction t) auto

lemma of_char_digit: "d < 10 \<Longrightarrow> of_char (digit_char d) = 48 + d"
  by (simp add: digit_char_def)

lemma digit_not_structural: "d < 10 \<Longrightarrow> \<not> structural (digit_char d)"
proof
  assume d: "d < 10" and s: "structural (digit_char d)"
  from s have "(of_char (digit_char d) :: nat) \<in> {34, 92, 123, 91, 125, 93}"
    unfolding structural_def by (elim disjE) simp_all
  with d show False by (simp add: of_char_digit)
qed

lemma decimal_plain: "\<forall>c \<in> set (decimal n). \<not> structural c"
proof (induction n rule: decimal.induct)
  case (1 n)
  show ?case
  proof (cases "n < 10")
    case True
    then show ?thesis by (subst decimal.simps) (simp add: digit_not_structural)
  next
    case False
    then show ?thesis using 1 by (subst decimal.simps) (simp add: digit_not_structural)
  qed
qed

lemma number_string_plain: "\<forall>c \<in> set (number_string i). \<not> structural c"
  using decimal_plain by (auto simp: number_string_def structural_def)

lemma hex_not_quote: "d < 16 \<Longrightarrow> hex_char d \<noteq> CHR 0x22 \<and> hex_char d \<noteq> CHR 0x5C"
proof -
  assume d: "d < 16"
  have "(of_char (hex_char d) :: nat) = (if d < 10 then 48 + d else 87 + d)"
    using d by (simp add: hex_char_def)
  then have "(of_char (hex_char d) :: nat) \<noteq> 34 \<and> (of_char (hex_char d) :: nat) \<noteq> 92"
    using d by auto
  then show ?thesis by auto
qed

lemma scan_escape_char: "scan f (Inside, d) (escape_char c) = Some (Inside, d)"
proof -
  have "(of_char c :: nat) < 32 \<Longrightarrow> (of_char c :: nat) div 16 < 16" by simp
  moreover have "(of_char c :: nat) mod 16 < 16" by simp
  ultimately show ?thesis
    using hex_not_quote[of "of_char c div 16"] hex_not_quote[of "of_char c mod 16"]
    by (simp add: escape_char_def)
qed

lemma scan_escaped: "scan f (Inside, d) (concat (map escape_char s)) = Some (Inside, d)"
  by (induction s) (simp_all add: scan_append scan_escape_char)

lemma scan_quote: "scan f (Outside, d) (quote s) = Some (Outside, d)"
  by (simp add: quote_def scan_append scan_escaped)

lemma scan_separated:
  assumes "\<forall>t \<in> set ys. scan f (Outside, d) t = Some (Outside, d)"
  shows "scan f (Outside, d) (concat (map (\<lambda>z. '','' @ z) ys)) = Some (Outside, d)"
  using assms by (induction ys) (simp_all add: scan_append)

lemma scan_join:
  assumes "\<forall>t \<in> set ts. scan f (Outside, d) t = Some (Outside, d)"
  shows "scan f (Outside, d) (join '','' ts) = Some (Outside, d)"
proof (cases ts)
  case Nil
  then show ?thesis by (simp add: join_def)
next
  case (Cons y ys)
  have "scan f (Outside, d) (concat (map (\<lambda>z. '','' @ z) ys)) = Some (Outside, d)"
    by (rule scan_separated) (use assms Cons in simp)
  moreover have "scan f (Outside, d) y = Some (Outside, d)" using assms Cons by simp
  ultimately show ?thesis unfolding Cons join_def by (simp only: list.case scan_append option.case)
qed

lemma scan_JSON:
  "(\<forall>f d. f \<le> d \<longrightarrow> scan f (Outside, d) (JSON_value v) = Some (Outside, d))"
  "(\<forall>t \<in> set (JSON_elements xs). \<forall>f d. f \<le> d \<longrightarrow> scan f (Outside, d) t = Some (Outside, d))"
  "(\<forall>t \<in> set (JSON_members kvs). \<forall>f d. f \<le> d \<longrightarrow> scan f (Outside, d) t = Some (Outside, d))"
proof (induction v and xs and kvs rule: JSON_value_JSON_elements_JSON_members.induct)
  case (4 i)
  then show ?case using number_string_plain by (simp add: scan_plain_Outside)
next
  case (5 s)
  then show ?case by (simp add: scan_quote)
next
  case (6 xs)
  show ?case
  proof (intro allI impI)
    fix f d :: nat assume "f \<le> d"
    then have "scan f (Outside, Suc d) (join '','' (JSON_elements xs)) = Some (Outside, Suc d)"
      using 6 by (intro scan_join) simp
    then show "scan f (Outside, d) (JSON_value (JArr xs)) = Some (Outside, d)"
      using \<open>f \<le> d\<close> by (simp add: scan_append)
  qed
next
  case (7 kvs)
  show ?case
  proof (intro allI impI)
    fix f d :: nat assume "f \<le> d"
    then have "scan f (Outside, Suc d) (join '','' (JSON_members kvs)) = Some (Outside, Suc d)"
      using 7 by (intro scan_join) simp
    then show "scan f (Outside, d) (JSON_value (JObj kvs)) = Some (Outside, d)"
      using \<open>f \<le> d\<close> by (simp add: scan_append)
  qed
next
  case (11 k v kvs)
  then show ?case by (auto simp: scan_append scan_quote)
qed (simp_all add: structural_def scan_plain_Outside)

lemma scan_members:
  "f \<le> d \<Longrightarrow> scan f (Outside, d) (join '','' (JSON_members kvs)) = Some (Outside, d)"
  using scan_JSON(3)[of kvs] by (intro scan_join) simp

lemma scan_opposite:
  "opposite m m' \<Longrightarrow> scan f (m, a) t = Some (n, a') \<Longrightarrow> scan f' (m', b) t = Some (n', b') \<Longrightarrow>
     opposite n n'"
proof (induction t arbitrary: m m' a b)
  case Nil
  then show ?case by simp
next
  case (Cons c t)
  from Cons.prems(2) obtain m1 a1 where 1: "scan_step f (m, a) c = Some (m1, a1)"
    and r1: "scan f (m1, a1) t = Some (n, a')"
    by (auto split: option.splits)
  from Cons.prems(3) obtain m2 b2 where 2: "scan_step f' (m', b) c = Some (m2, b2)"
    and r2: "scan f' (m2, b2) t = Some (n', b')"
    by (auto split: option.splits)
  have "opposite m1 m2"
    using Cons.prems(1) 1 2 by (auto simp: opposite_def split: if_splits)
  then show ?case using Cons.IH r1 r2 by blast
qed

lemma scan_floor:
  "scan f (m, d) t = Some (n, d') \<Longrightarrow> f \<le> d \<Longrightarrow> f \<le> d'"
proof (induction t arbitrary: m d)
  case Nil
  then show ?case by simp
next
  case (Cons c t)
  from Cons.prems(1) obtain m1 d1 where 1: "scan_step f (m, d) c = Some (m1, d1)"
    and r1: "scan f (m1, d1) t = Some (n, d')"
    by (auto split: option.splits)
  have "f \<le> d1" using 1 Cons.prems(2) by (cases m) (auto split: if_splits)
  then show ?case using Cons.IH r1 by blast
qed

lemma object_text_no_proper_suffix:
  assumes "JSON_value (JObj kvs1) = P @ JSON_value (JObj kvs2)"
  shows "P = []"
proof (rule ccontr)
  assume ne: "P \<noteq> []"
  let ?X1 = "join '','' (JSON_members kvs1)" and ?X2 = "join '','' (JSON_members kvs2)"
  from assms have e: "''{'' @ ?X1 @ ''}'' = P @ ''{'' @ ?X2 @ ''}''" by simp
  from ne obtain P' where P: "P = CHR ''{'' # P'" using e by (cases P) auto
  from e have "?X1 @ ''}'' = (P' @ ''{'' @ ?X2) @ ''}''" by (simp add: P)
  then have X1: "?X1 = P' @ ''{'' @ ?X2" by (simp only: append_same_eq)
  have s1: "scan 1 (Outside, 1) ?X1 = Some (Outside, 1)" by (rule scan_members) simp
  then obtain m d where st1: "scan 1 (Outside, 1) P' = Some (m, d)"
    and rest: "scan 1 (m, d) (''{'' @ ?X2) = Some (Outside, 1)"
    unfolding X1 scan_append by (auto split: option.splits)
  have d: "1 \<le> d" using scan_floor[OF st1] by simp
  show False
  proof (cases m)
    case Outside
    then have "scan 1 (Outside, Suc d) ?X2 = Some (Outside, 1)" using rest by simp
    moreover have "scan 1 (Outside, Suc d) ?X2 = Some (Outside, Suc d)"
      by (rule scan_members) simp
    ultimately show False using d by simp
  next
    case Inside
    then have i: "scan 1 (Inside, d) ?X2 = Some (Outside, 1)" using rest by simp
    have o: "scan 1 (Outside, 1) ?X2 = Some (Outside, 1)" by (rule scan_members) simp
    from scan_opposite[OF _ i o] show False by (simp add: opposite_def)
  next
    case Escaped
    then have i: "scan 1 (Inside, d) ?X2 = Some (Outside, 1)" using rest by simp
    have o: "scan 1 (Outside, 1) ?X2 = Some (Outside, 1)" by (rule scan_members) simp
    from scan_opposite[OF _ i o] show False by (simp add: opposite_def)
  qed
qed

lemma keyed_text_inj:
  assumes "q1 @ '':'' @ JSON_value (JObj kvs1) = q2 @ '':'' @ JSON_value (JObj kvs2)"
  shows "q1 = q2 \<and> JSON_value (JObj kvs1) = JSON_value (JObj kvs2)"
proof -
  from assms obtain us where
    "(q1 = q2 @ us \<and> us @ '':'' @ JSON_value (JObj kvs1) = '':'' @ JSON_value (JObj kvs2)) \<or>
     (q1 @ us = q2 \<and> '':'' @ JSON_value (JObj kvs1) = us @ '':'' @ JSON_value (JObj kvs2))"
    by (auto simp: append_eq_append_conv2)
  then show ?thesis
  proof
    assume a: "q1 = q2 @ us \<and> us @ '':'' @ JSON_value (JObj kvs1) = '':'' @ JSON_value (JObj kvs2)"
    show ?thesis
    proof (cases us)
      case Nil
      then show ?thesis using a by simp
    next
      case (Cons c us')
      with a have "JSON_value (JObj kvs2) = (us' @ '':'') @ JSON_value (JObj kvs1)" by simp
      from object_text_no_proper_suffix[OF this] show ?thesis by simp
    qed
  next
    assume a: "q1 @ us = q2 \<and> '':'' @ JSON_value (JObj kvs1) = us @ '':'' @ JSON_value (JObj kvs2)"
    show ?thesis
    proof (cases us)
      case Nil
      then show ?thesis using a by simp
    next
      case (Cons c us')
      with a have "JSON_value (JObj kvs1) = (us' @ '':'') @ JSON_value (JObj kvs2)" by simp
      from object_text_no_proper_suffix[OF this] show ?thesis by simp
    qed
  qed
qed

lemma cacheKey_text:
  "cacheKey q opts = q @ '':'' @ JSON_value (options_object opts)"
  by (simp add: cacheKey_def JSON_stringify_def template_def options_object_def)

lemma cacheKey_inj_text:
  "cacheKey q1 o1 = cacheKey q2 o2 \<Longrightarrow>
     q1 = q2 \<and> JSON_value (options_object o1) = JSON_value (options_object o2)"
  unfolding cacheKey_text options_object_def by (rule keyed_text_inj)

lemma is_digit_digit_char: "d < 10 \<Longrightarrow> is_digit (digit_char d)"
  by (simp add: is_digit_def of_char_digit)

lemma decimal_digits: "list_all is_digit (decimal n)"
proof (induction n rule: decimal.induct)
  case (1 n)
  show ?case
  proof (cases "n < 10")
    case True
    then show ?thesis by (subst decimal.simps) (simp add: is_digit_digit_char)
  next
    case False
    then show ?thesis using 1 by (subst decimal.simps) (simp add: is_digit_digit_char)
  qed
qed

lemma decimal_nonempty: "decimal n \<noteq> []"
  by (subst decimal.simps) simp

lemma digits_value_decimal: "digits_value (decimal n) = n"
proof (induction n rule: decimal.induct)
  case (1 n)
  show ?case
  proof (cases "n < 10")
    case True
    then show ?thesis by (subst decimal.simps) (simp add: digits_value_def of_char_digit)
  next
    case False
    then have "digits_value (decimal (n div 10)) = n div 10" using 1 by simp
    then show ?thesis using False
      by (subst decimal.simps) (simp add: digits_value_def of_char_digit)
  qed
qed

lemma decimal_inj: "decimal n = decimal m \<Longrightarrow> n = m"
  by (metis digits_value_decimal)

lemma digits_then_end:
  assumes "list_all is_digit xs" "list_all is_digit ys" "ends_number r" "ends_number r'"
    and "xs @ r = ys @ r'"
  shows "xs = ys \<and> r = r'"
  using assms
proof (induction xs arbitrary: ys)
  case Nil
  then show ?case by (cases ys) (auto simp: ends_number_def)
next
  case (Cons x xs)
  then show ?case by (cases ys) (auto simp: ends_number_def)
qed

lemma decimal_code:
  assumes "decimal n @ r = decimal m @ r'" "ends_number r" "ends_number r'"
  shows "n = m \<and> r = r'"
  using digits_then_end[OF decimal_digits decimal_digits assms(2,3,1)] decimal_inj by blast

lemma hd_decimal_digit: "is_digit (hd (decimal n))"
  using decimal_digits[of n] decimal_nonempty[of n] by (cases "decimal n") auto

lemma minus_not_digit: "\<not> is_digit CHR ''-''"
  by (simp add: is_digit_def)

lemma number_string_code:
  assumes "number_string i @ r = number_string j @ r'" "ends_number r" "ends_number r'"
  shows "i = j \<and> r = r'"
proof -
  have neg: "False" if "CHR ''-'' # t = decimal m @ r'" for t m r'
  proof -
    from that have "hd (decimal m) = CHR ''-''" using decimal_nonempty[of m]
      by (cases "decimal m") auto
    then show False using hd_decimal_digit[of m] minus_not_digit by simp
  qed
  show ?thesis
  proof (cases "i < 0"; cases "j < 0")
    assume "i < 0" "j < 0"
    then show ?thesis using assms decimal_code[of "nat (- i)" r "nat (- j)" r']
      by (auto simp: number_string_def)
  next
    assume "i < 0" "\<not> j < 0"
    then show ?thesis using assms neg by (auto simp: number_string_def)
  next
    assume "\<not> i < 0" "j < 0"
    then show ?thesis using assms neg[of _ "nat i" r] by (auto simp: number_string_def)
  next
    assume "\<not> i < 0" "\<not> j < 0"
    then show ?thesis using assms decimal_code[of "nat i" r "nat j" r']
      by (auto simp: number_string_def)
  qed
qed

lemma of_char_hex: "d < 16 \<Longrightarrow> (of_char (hex_char d) :: nat) = (if d < 10 then 48 + d else 87 + d)"
  by (simp add: hex_char_def)

lemma hex_char_inj: "a < 16 \<Longrightarrow> b < 16 \<Longrightarrow> hex_char a = hex_char b \<Longrightarrow> a = b"
proof -
  assume a: "a < 16" and b: "b < 16" and e: "hex_char a = hex_char b"
  from e have "(of_char (hex_char a) :: nat) = of_char (hex_char b)" by simp
  then show ?thesis using a b by (simp add: of_char_hex split: if_splits)
qed

lemma escape_char_plain: "\<not> needs_escape c \<Longrightarrow> escape_char c = [c]"
  by (auto simp: escape_char_def needs_escape_def)

lemma escape_char_special: "needs_escape c \<Longrightarrow> escape_char c = CHR 0x5C # escape_tail c"
  by (auto simp: escape_char_def needs_escape_def escape_tail_def)

lemma low_char_eq:
  assumes "(of_char c :: nat) div 16 = of_char d div 16" "(of_char c :: nat) mod 16 = of_char d mod 16"
  shows "c = d"
proof -
  have "(of_char c :: nat) = of_char d" using assms by (metis div_mult_mod_eq)
  then show ?thesis by simp
qed

lemma escape_tail_code:
  assumes "needs_escape c" "needs_escape d" "escape_tail c @ A = escape_tail d @ B"
  shows "c = d \<and> A = B"
proof -
  have h: "(of_char x :: nat) div 16 < 16" "(of_char x :: nat) mod 16 < 16" for x :: char
  proof -
    show "(of_char x :: nat) div 16 < 16" by (rule less_mult_imp_div_less) simp
    show "(of_char x :: nat) mod 16 < 16" by simp
  qed
  show ?thesis
  proof (cases "hd (escape_tail c) = CHR ''u''")
    case True
    then have cu: "escape_tail c = [CHR ''u'', CHR ''0'', CHR ''0'',
         hex_char (of_char c div 16), hex_char (of_char c mod 16)]"
      by (auto simp: escape_tail_def split: if_splits)
    from True assms(3) have "hd (escape_tail d) = CHR ''u''"
      by (cases "escape_tail d") (auto simp: cu escape_tail_def split: if_splits)
    then have du: "escape_tail d = [CHR ''u'', CHR ''0'', CHR ''0'',
         hex_char (of_char d div 16), hex_char (of_char d mod 16)]"
      by (auto simp: escape_tail_def split: if_splits)
    from assms(3) have "hex_char (of_char c div 16) = hex_char (of_char d div 16)"
      and "hex_char (of_char c mod 16) = hex_char (of_char d mod 16)" and "A = B"
      by (simp_all add: cu du)
    then show ?thesis using hex_char_inj h low_char_eq by metis
  next
    case False
    then have c1: "escape_tail c = [hd (escape_tail c)]"
      by (auto simp: escape_tail_def split: if_splits)
    from False assms(3) have nd: "hd (escape_tail d) \<noteq> CHR ''u''"
      by (cases "escape_tail d"; cases "escape_tail c") (auto simp: escape_tail_def split: if_splits)
    then have d1: "escape_tail d = [hd (escape_tail d)]"
      by (auto simp: escape_tail_def split: if_splits)
    from assms(3) have e: "hd (escape_tail c) = hd (escape_tail d)" and "A = B"
      by (subst (asm) c1, subst (asm) d1, simp)+
    have "c = d"
      using e False nd by (simp add: escape_tail_def split: if_splits)
    then show ?thesis using \<open>A = B\<close> by simp
  qed
qed

lemma escape_char_code:
  assumes "escape_char c @ A = escape_char d @ B"
  shows "c = d \<and> A = B"
proof (cases "needs_escape c"; cases "needs_escape d")
  assume c: "needs_escape c" and d: "needs_escape d"
  from assms have "escape_tail c @ A = escape_tail d @ B"
    by (simp add: escape_char_special[OF c] escape_char_special[OF d])
  then show ?thesis by (rule escape_tail_code[OF c d])
next
  assume c: "needs_escape c" and d: "\<not> needs_escape d"
  from assms have "d = CHR 0x5C" by (simp add: escape_char_special[OF c] escape_char_plain[OF d])
  then show ?thesis using d by (simp add: needs_escape_def)
next
  assume c: "\<not> needs_escape c" and d: "needs_escape d"
  from assms have "c = CHR 0x5C" by (simp add: escape_char_special[OF d] escape_char_plain[OF c])
  then show ?thesis using c by (simp add: needs_escape_def)
next
  assume c: "\<not> needs_escape c" and d: "\<not> needs_escape d"
  from assms show ?thesis by (simp add: escape_char_plain[OF c] escape_char_plain[OF d])
qed

lemma escape_char_not_quote: "hd (escape_char c) \<noteq> CHR 0x22 \<and> escape_char c \<noteq> []"
proof (cases "needs_escape c")
  case True
  then show ?thesis by (simp add: escape_char_special)
next
  case False
  then have "c \<noteq> CHR 0x22" by (auto simp: needs_escape_def)
  then show ?thesis using False by (simp add: escape_char_plain)
qed

lemma escaped_code:
  "concat (map escape_char s) @ CHR 0x22 # r = concat (map escape_char t) @ CHR 0x22 # r' \<Longrightarrow>
     s = t \<and> r = r'"
proof (induction s arbitrary: t)
  case Nil
  show ?case
  proof (cases t)
    case Nil
    then show ?thesis using Nil.prems by simp
  next
    case (Cons d t')
    then show ?thesis using Nil.prems escape_char_not_quote[of d]
      by (cases "escape_char d") auto
  qed
next
  case (Cons c s)
  show ?case
  proof (cases t)
    case Nil
    then show ?thesis using Cons.prems escape_char_not_quote[of c]
      by (cases "escape_char c") auto
  next
    case (Cons d t')
    with Cons.prems have "escape_char c @ (concat (map escape_char s) @ CHR 0x22 # r) =
        escape_char d @ (concat (map escape_char t') @ CHR 0x22 # r')" by simp
    from escape_char_code[OF this] Cons.IH[of t'] show ?thesis using Cons by simp
  qed
qed

lemma quote_code: "quote s @ r = quote t @ r' \<Longrightarrow> s = t \<and> r = r'"
  using escaped_code[of s r t r'] by (simp add: quote_def)

lemma join_Cons: "join sep (y # ys) = y @ (case ys of [] \<Rightarrow> [] | _ \<Rightarrow> sep @ join sep ys)"
  by (cases ys) (simp_all add: join_def)

lemma elements_body_Nil: "elements_body [] = '']''"
  by (simp add: elements_body_def join_def)

lemma elements_body_Cons:
  "elements_body (x # xs) = JSON_value x @ (case xs of [] \<Rightarrow> '']'' | _ \<Rightarrow> '','' @ elements_body xs)"
  by (cases xs) (simp_all add: elements_body_def join_Cons)

lemma members_body_Nil: "members_body [] = ''}''"
  by (simp add: members_body_def join_def)

lemma defined_not_undefined: "defined v \<Longrightarrow> v \<noteq> JUndefined"
  by auto

lemma members_body_Cons:
  assumes "defined v" "defined_props kvs"
  shows "members_body ((k, v) # kvs) =
     quote k @ '':'' @ JSON_value v @ (case kvs of [] \<Rightarrow> ''}'' | _ \<Rightarrow> '','' @ members_body kvs)"
proof (cases kvs)
  case Nil
  then show ?thesis using assms(1) defined_not_undefined by (simp add: members_body_def join_def)
next
  case (Cons a list)
  obtain k' v' where a: "a = (k', v')" by (cases a)
  have "v' \<noteq> JUndefined" using assms(2) Cons a defined_not_undefined by auto
  then show ?thesis using assms(1) defined_not_undefined Cons a
    by (simp add: members_body_def join_Cons)
qed

lemma ends_number_simps:
  "ends_number (CHR '','' # r)" "ends_number (CHR '']'' # r)" "ends_number (CHR ''}'' # r)"
  "ends_number []"
  by (simp_all add: ends_number_def is_digit_def)

lemma hd_number_string: "number_string i \<noteq> [] \<and>
    (is_digit (hd (number_string i)) \<or> hd (number_string i) = CHR ''-'')"
  using hd_decimal_digit decimal_nonempty by (simp add: number_string_def)

lemma JSON_value_leads: "JSON_value v \<noteq> [] \<and> leads v (hd (JSON_value v))"
  using hd_number_string by (cases v) (simp_all add: quote_def)

lemma leads_not_closing:
  "defined v \<Longrightarrow> leads v c \<Longrightarrow> c \<noteq> CHR '']'' \<and> c \<noteq> CHR ''}'' \<and> c \<noteq> CHR '',''"
  by (cases v) (auto simp: is_digit_def)

lemma leads_same_kind:
  assumes "defined v" "defined w" "leads v c" "leads w c"
  shows "(\<exists>i j. v = JNum i \<and> w = JNum j) \<or> (\<exists>s t. v = JStr s \<and> w = JStr t) \<or>
         (\<exists>xs ys. v = JArr xs \<and> w = JArr ys) \<or> (\<exists>k l. v = JObj k \<and> w = JObj l) \<or> v = w"
  using assms by (cases v; cases w) (auto simp: is_digit_def split: if_splits)

lemma hd_append_eq:
  assumes "a @ r = b @ r'" "a \<noteq> []" "b \<noteq> []"
  shows "hd a = hd b"
  using assms by (cases a; cases b) auto

lemma ends_number_elements_rest:
  "ends_number ((case xs of [] \<Rightarrow> '']'' | _ \<Rightarrow> '','' @ elements_body xs) @ r)"
  by (cases xs) (simp_all add: ends_number_simps)

lemma ends_number_members_rest:
  "ends_number ((case kvs of [] \<Rightarrow> ''}'' | _ \<Rightarrow> '','' @ members_body kvs) @ r)"
  by (cases kvs) (simp_all add: ends_number_simps)

lemma JSON_code:
  "defined v \<longrightarrow> (\<forall>w r r'. defined w \<longrightarrow> ends_number r \<longrightarrow> ends_number r' \<longrightarrow>
      JSON_value v @ r = JSON_value w @ r' \<longrightarrow> v = w \<and> r = r')"
  "defined_list xs \<longrightarrow> (\<forall>ys r r'. defined_list ys \<longrightarrow>
      elements_body xs @ r = elements_body ys @ r' \<longrightarrow> xs = ys \<and> r = r')"
  "defined_props kvs \<longrightarrow> (\<forall>lws r r'. defined_props lws \<longrightarrow>
      members_body kvs @ r = members_body lws @ r' \<longrightarrow> kvs = lws \<and> r = r')"
proof (induction v and xs and kvs rule: defined_defined_list_defined_props.induct)
  case 1
  then show ?case by simp
next
  case (2 xs)
  show ?case
  proof (intro impI allI)
    fix w r r'
    assume d: "defined (JArr xs)" and dw: "defined w"
      and e: "JSON_value (JArr xs) @ r = JSON_value w @ r'"
    from hd_append_eq[OF e] JSON_value_leads[of w] have "leads w CHR ''[''" by simp
    with dw obtain ys where w: "w = JArr ys" by (cases w) (auto simp: is_digit_def split: if_splits)
    from e have "elements_body xs @ r = elements_body ys @ r'"
      by (simp add: w elements_body_def)
    from "2.IH"[rule_format, OF _ _ this] d dw w show "JArr xs = w \<and> r = r'" by simp
  qed
next
  case (3 kvs)
  show ?case
  proof (intro impI allI)
    fix w r r'
    assume d: "defined (JObj kvs)" and dw: "defined w"
      and e: "JSON_value (JObj kvs) @ r = JSON_value w @ r'"
    from hd_append_eq[OF e] JSON_value_leads[of w] have "leads w CHR ''{''" by simp
    with dw obtain lws where w: "w = JObj lws" by (cases w) (auto simp: is_digit_def split: if_splits)
    from e have "members_body kvs @ r = members_body lws @ r'"
      by (simp add: w members_body_def)
    from "3.IH"[rule_format, OF _ _ this] d dw w show "JObj kvs = w \<and> r = r'" by simp
  qed
next
  case 4
  show ?case
  proof (intro impI allI)
    fix w r r'
    assume dw: "defined w" and e: "JSON_value JNull @ r = JSON_value w @ r'"
    from hd_append_eq[OF e] JSON_value_leads[of w] have "leads w CHR ''n''" by simp
    with dw have w: "w = JNull" by (cases w) (auto simp: is_digit_def split: if_splits)
    with e show "JNull = w \<and> r = r'" by simp
  qed
next
  case (5 b)
  show ?case
  proof (intro impI allI)
    fix w r r'
    assume dw: "defined w" and e: "JSON_value (JBool b) @ r = JSON_value w @ r'"
    from hd_append_eq[OF e] JSON_value_leads[of w]
    have "leads w (if b then CHR ''t'' else CHR ''f'')" by (cases b) auto
    with dw have w: "w = JBool b" by (cases w) (auto simp: is_digit_def split: if_splits)
    with e show "JBool b = w \<and> r = r'" by simp
  qed
next
  case (6 i)
  show ?case
  proof (intro impI allI)
    fix w r r'
    assume dw: "defined w" and er: "ends_number r" "ends_number r'"
      and e: "JSON_value (JNum i) @ r = JSON_value w @ r'"
    from hd_append_eq[OF e] JSON_value_leads[of w] JSON_value_leads[of "JNum i"]
    have "is_digit (hd (JSON_value w)) \<or> hd (JSON_value w) = CHR ''-''" by simp
    with dw JSON_value_leads[of w] obtain j where w: "w = JNum j"
      by (cases w) (auto simp: is_digit_def split: if_splits)
    from e have "number_string i @ r = number_string j @ r'" by (simp add: w)
    from number_string_code[OF this er] show "JNum i = w \<and> r = r'" by (simp add: w)
  qed
next
  case (7 s)
  show ?case
  proof (intro impI allI)
    fix w r r'
    assume dw: "defined w" and e: "JSON_value (JStr s) @ r = JSON_value w @ r'"
    from hd_append_eq[OF e] JSON_value_leads[of w] JSON_value_leads[of "JStr s"]
    have "leads w (CHR 0x22)" by simp
    with dw obtain t where w: "w = JStr t" by (cases w) (auto simp: is_digit_def split: if_splits)
    from e have "quote s @ r = quote t @ r'" by (simp add: w)
    from quote_code[OF this] show "JStr s = w \<and> r = r'" by (simp add: w)
  qed
next
  case 8
  show ?case
  proof (intro impI allI)
    fix ys r r'
    assume dy: "defined_list ys" and e: "elements_body [] @ r = elements_body ys @ r'"
    show "[] = ys \<and> r = r'"
    proof (cases ys)
      case Nil
      then show ?thesis using e by (simp add: elements_body_Nil)
    next
      case (Cons y ys')
      with e have "'']'' @ r = JSON_value y @
          ((case ys' of [] \<Rightarrow> '']'' | _ \<Rightarrow> '','' @ elements_body ys') @ r')"
        by (simp add: elements_body_Nil elements_body_Cons)
      from hd_append_eq[OF this] JSON_value_leads[of y] have "leads y CHR '']''" by simp
      then show ?thesis using leads_not_closing[of y "CHR '']''"] dy Cons by auto
    qed
  qed
next
  case (9 x xs)
  show ?case
  proof (intro impI allI)
    fix ys r r'
    assume d: "defined_list (x # xs)" and dy: "defined_list ys"
      and e: "elements_body (x # xs) @ r = elements_body ys @ r'"
    show "x # xs = ys \<and> r = r'"
    proof (cases ys)
      case Nil
      with e have "'']'' @ r' = JSON_value x @
          ((case xs of [] \<Rightarrow> '']'' | _ \<Rightarrow> '','' @ elements_body xs) @ r)"
        by (simp add: elements_body_Nil elements_body_Cons)
      from hd_append_eq[OF this] JSON_value_leads[of x] have "leads x CHR '']''" by simp
      then show ?thesis using leads_not_closing[of x "CHR '']''"] d by auto
    next
      case (Cons y ys')
      let ?rx = "(case xs of [] \<Rightarrow> '']'' | _ \<Rightarrow> '','' @ elements_body xs) @ r"
      let ?ry = "(case ys' of [] \<Rightarrow> '']'' | _ \<Rightarrow> '','' @ elements_body ys') @ r'"
      from e Cons have e': "JSON_value x @ ?rx = JSON_value y @ ?ry"
        by (simp add: elements_body_Cons)
      have dx: "defined x" "defined_list xs" "defined y" "defined_list ys'"
        using d dy Cons by simp_all
      have "x = y \<and> ?rx = ?ry"
        by (rule "9.IH"(1)[rule_format, OF dx(1) dx(3) ends_number_elements_rest
              ends_number_elements_rest e'])
      then have xy: "x = y" and rest: "?rx = ?ry" by auto
      have "xs = ys' \<and> r = r'"
      proof (cases xs; cases ys')
        assume "xs = []" "ys' = []"
        then show ?thesis using rest by simp
      next
        fix a l assume "xs = []" "ys' = a # l"
        then show ?thesis using rest by simp
      next
        fix a l assume "xs = a # l" "ys' = []"
        then show ?thesis using rest by simp
      next
        fix a l b m assume c: "xs = a # l" "ys' = b # m"
        then have "elements_body xs @ r = elements_body ys' @ r'" using rest by simp
        then show ?thesis by (rule "9.IH"(2)[rule_format, OF dx(2) dx(4)])
      qed
      then show ?thesis using xy Cons by simp
    qed
  qed
next
  case 10
  show ?case
  proof (intro impI allI)
    fix lws r r'
    assume dl: "defined_props lws" and e: "members_body [] @ r = members_body lws @ r'"
    show "[] = lws \<and> r = r'"
    proof (cases lws)
      case Nil
      then show ?thesis using e by (simp add: members_body_Nil)
    next
      case (Cons a lws')
      obtain l w where a: "a = (l, w)" by (cases a)
      from e Cons a dl have "''}'' @ r = quote l @ ('':'' @ JSON_value w @
          (case lws' of [] \<Rightarrow> ''}'' | _ \<Rightarrow> '','' @ members_body lws') @ r')"
        by (simp add: members_body_Nil members_body_Cons)
      from hd_append_eq[OF this] show ?thesis by (simp add: quote_def)
    qed
  qed
next
  case (11 k v kvs)
  show ?case
  proof (intro impI allI)
    fix lws r r'
    assume d: "defined_props ((k, v) # kvs)" and dl: "defined_props lws"
      and e: "members_body ((k, v) # kvs) @ r = members_body lws @ r'"
    let ?rx = "(case kvs of [] \<Rightarrow> ''}'' | _ \<Rightarrow> '','' @ members_body kvs) @ r"
    show "(k, v) # kvs = lws \<and> r = r'"
    proof (cases lws)
      case Nil
      with e d have "''}'' @ r' = quote k @ ('':'' @ JSON_value v @ ?rx)"
        by (simp add: members_body_Nil members_body_Cons)
      from hd_append_eq[OF this] show ?thesis by (simp add: quote_def)
    next
      case (Cons a lws')
      obtain l w where a: "a = (l, w)" by (cases a)
      let ?ry = "(case lws' of [] \<Rightarrow> ''}'' | _ \<Rightarrow> '','' @ members_body lws') @ r'"
      from e Cons a d dl have "quote k @ ('':'' @ JSON_value v @ ?rx) =
          quote l @ ('':'' @ JSON_value w @ ?ry)"
        by (simp add: members_body_Cons)
      from quote_code[OF this] have kl: "k = l" and e': "JSON_value v @ ?rx = JSON_value w @ ?ry"
        by auto
      have dx: "defined v" "defined_props kvs" "defined w" "defined_props lws'"
        using d dl Cons a by simp_all
      have "v = w \<and> ?rx = ?ry"
        by (rule "11.IH"(1)[rule_format, OF dx(1) dx(3) ends_number_members_rest
              ends_number_members_rest e'])
      then have vw: "v = w" and rest: "?rx = ?ry" by auto
      have "kvs = lws' \<and> r = r'"
      proof (cases kvs; cases lws')
        assume "kvs = []" "lws' = []"
        then show ?thesis using rest by simp
      next
        fix b m assume "kvs = []" "lws' = b # m"
        then show ?thesis using rest by simp
      next
        fix b m assume "kvs = b # m" "lws' = []"
        then show ?thesis using rest by simp
      next
        fix b m c n assume c: "kvs = b # m" "lws' = c # n"
        then have "members_body kvs @ r = members_body lws' @ r'" using rest by simp
        then show ?thesis by (rule "11.IH"(2)[rule_format, OF dx(2) dx(4)])
      qed
      then show ?thesis using kl vw Cons a by simp
    qed
  qed
qed

lemma JSON_value_inj:
  "defined v \<Longrightarrow> defined w \<Longrightarrow> JSON_value v = JSON_value w \<Longrightarrow> v = w"
  using JSON_code(1)[rule_format, of v w "[]" "[]"] ends_number_simps(4) by simp

lemma option_member_inj: "option_member p = option_member p' \<Longrightarrow> p = p'"
  by (cases p; cases p') simp_all

lemma defined_props_options: "plain_options opts \<Longrightarrow> defined_props (map option_member opts)"
proof (induction opts)
  case Nil
  then show ?case by simp
next
  case (Cons p opts)
  then show ?case by (cases p) (simp_all add: plain_options_def)
qed

lemma options_object_inj:
  assumes p1: "plain_options o1" and p2: "plain_options o2"
    and e: "JSON_value (options_object o1) = JSON_value (options_object o2)"
  shows "o1 = o2"
proof -
  have "defined (options_object o1)" "defined (options_object o2)"
    using defined_props_options p1 p2 by (simp_all add: options_object_def)
  from JSON_value_inj[OF this e] have "map option_member o1 = map option_member o2"
    by (simp add: options_object_def)
  moreover have "inj option_member" using option_member_inj by (rule injI)
  ultimately show ?thesis by (simp add: inj_map_eq_map)
qed

text \<open>
  Claim C6, as amended. The cache key is the query, a colon and
  \<^verbatim>\<open>JSON.stringify(options)\<close>, a function of the query and the options alone. Take
  options whose values are \<^verbatim>\<open>undefined\<close>, \<^verbatim>\<open>null\<close>, booleans, safe integers,
  strings, arrays and plain objects. Two requests have the same key exactly when they have
  the same query and the same serialised options. Where moreover the options hold no
  \<^verbatim>\<open>undefined\<close>, the serialisation determines the options, the order of their
  properties included, so distinct (query, options) pairs have distinct keys.
\<close>

theorem cacheKey_injective:
  "(safe_options o1 \<and> safe_options o2 \<longrightarrow>
      (cacheKey q1 o1 = cacheKey q2 o2) =
        (q1 = q2 \<and> JSON_stringify (options_object o1) = JSON_stringify (options_object o2))) \<and>
   (plain_options o1 \<and> plain_options o2 \<and> cacheKey q1 o1 = cacheKey q2 o2 \<longrightarrow>
      q1 = q2 \<and> o1 = o2)"
proof -
  have s: "JSON_stringify (options_object opts) = Some (JSON_value (options_object opts))" for opts
    by (simp add: JSON_stringify_def options_object_def)
  have a: "(cacheKey q1 o1 = cacheKey q2 o2) =
     (q1 = q2 \<and> JSON_stringify (options_object o1) = JSON_stringify (options_object o2))"
    using cacheKey_inj_text[of q1 o1 q2 o2] by (auto simp: s cacheKey_text)
  show ?thesis
    using a options_object_inj[of o1 o2] by (auto simp: s)
qed

theorem cacheKey_injective_witness:
  "safe_options no_options \<and> safe_options [Context (JArr [JUndefined])] \<and>
   (cacheKey ''pay'' no_options = cacheKey ''pay:{}'' no_options) = False \<and>
   (cacheKey ''pay'' [Context (JArr [JUndefined])] = cacheKey ''pay'' no_options) =
     (JSON_stringify (options_object [Context (JArr [JUndefined])]) =
      JSON_stringify (options_object no_options)) \<and>
   plain_options no_options \<and> plain_options options_m1 \<and>
   plain_options [Language ''en'', UserId ''u1''] \<and> plain_options [UserId ''u1'', Language ''en''] \<and>
   cacheKey ''pay'' no_options \<noteq> cacheKey ''pay'' options_m1 \<and>
   cacheKey ''pay'' [Language ''en'', UserId ''u1''] \<noteq> cacheKey ''pay'' [UserId ''u1'', Language ''en'']"
proof -
  have f: "safe_options no_options" "safe_options [Context (JArr [JUndefined])]"
    by (simp_all add: safe_options_def no_options_def)
  have p: "plain_options no_options" "plain_options options_m1"
    "plain_options [Language ''en'', UserId ''u1'']" "plain_options [UserId ''u1'', Language ''en'']"
    by (simp_all add: plain_options_def no_options_def options_m1_def)
  have d: "no_options \<noteq> options_m1" "[Language ''en'', UserId ''u1''] \<noteq> [UserId ''u1'', Language ''en'']"
    by (simp_all add: no_options_def options_m1_def)
  have q: "''pay'' \<noteq> ''pay:{}''" by simp
  from cacheKey_injective[of no_options no_options "''pay''" "''pay:{}''"] f q
  have 1: "(cacheKey ''pay'' no_options = cacheKey ''pay:{}'' no_options) = False"
    by blast
  from cacheKey_injective[of "[Context (JArr [JUndefined])]" no_options "''pay''" "''pay''"] f
  have 2: "(cacheKey ''pay'' [Context (JArr [JUndefined])] = cacheKey ''pay'' no_options) =
     (JSON_stringify (options_object [Context (JArr [JUndefined])]) =
      JSON_stringify (options_object no_options))"
    by blast
  from cacheKey_injective[of no_options options_m1 "''pay''" "''pay''"] p d
  have 3: "cacheKey ''pay'' no_options \<noteq> cacheKey ''pay'' options_m1"
    by blast
  from cacheKey_injective[of "[Language ''en'', UserId ''u1'']" "[UserId ''u1'', Language ''en'']"
      "''pay''" "''pay''"] p d
  have 4: "cacheKey ''pay'' [Language ''en'', UserId ''u1''] \<noteq>
     cacheKey ''pay'' [UserId ''u1'', Language ''en'']"
    by blast
  show ?thesis using f p 1 2 3 4 by blast
qed

text \<open>The claim C6 as stated fails: \<^verbatim>\<open>JSON.stringify\<close> writes an
  \<^verbatim>\<open>undefined\<close> array element as \<^verbatim>\<open>null\<close>, so two different option payloads share
  a key.\<close>

theorem cacheKey_injective_counterexample:
  "[Context (JArr [JUndefined])] \<noteq> [Context (JArr [JNull])] \<and>
   cacheKey ''pay'' [Context (JArr [JUndefined])] = cacheKey ''pay'' [Context (JArr [JNull])]"
  by (simp add: cacheKey_def options_object_def JSON_stringify_def)

end
